theory Spec2Isabelle
  imports Main
begin

section \<open>JavaScript strings\<close>

text \<open>
  A JavaScript string is a sequence of UTF-16 code units; each code unit is modelled as a
  natural number. ASCII literals of the source are written with \<open>asc\<close>; the Cyrillic
  literals are spelled out as code units (the comment gives the transliteration).
\<close>

type_synonym jstring = "nat list"

definition asc :: "string \<Rightarrow> jstring" where
  "asc s = map of_char s"

text \<open>\<open>Number.prototype.toString\<close> at a non-negative integer: its decimal digits.\<close>

fun natToString :: "nat \<Rightarrow> jstring" where
  "natToString n = (if n < 10 then [48 + n] else natToString (n div 10) @ [48 + n mod 10])"

declare natToString.simps [simp del]

text \<open>\<open>s.replace(/c/g, r)\<close> for a pattern of one literal code unit \<open>c\<close>.\<close>

definition replaceAll :: "nat \<Rightarrow> jstring \<Rightarrow> jstring \<Rightarrow> jstring" where
  "replaceAll c r s = concat (map (\<lambda>x. if x = c then r else [x]) s)"

text \<open>\<open>String.prototype.includes\<close>: \<open>p\<close> occurs in \<open>s\<close> as a contiguous run.\<close>

fun strIncludes :: "jstring \<Rightarrow> jstring \<Rightarrow> bool" where
  "strIncludes [] p = (p = [])"
| "strIncludes (x # xs) p = (take (length p) (x # xs) = p \<or> strIncludes xs p)"

text \<open>\<open>s.split(c)\<close> for a separator of one code unit (never returns the empty list).\<close>

fun splitOn :: "(nat \<Rightarrow> bool) \<Rightarrow> jstring \<Rightarrow> jstring list" where
  "splitOn sep [] = [[]]"
| "splitOn sep (x # xs) =
     (if sep x then [] # splitOn sep xs
      else (case splitOn sep xs of [] \<Rightarrow> [[x]] | p # ps \<Rightarrow> (x # p) # ps))"

text \<open>
  \<open>Array.from(new Set(xs))\<close>: the distinct elements in the order of their first
  occurrence.
\<close>

fun uniq :: "'a list \<Rightarrow> 'a list" where
  "uniq [] = []"
| "uniq (x # xs) = x # uniq (filter (\<lambda>y. y \<noteq> x) xs)"

text \<open>
  \<open>Array.prototype.sort\<close>. The language fixes the result when the comparator is
  consistent: the stable sort. Otherwise the order is the engine's; the model is the
  V8 engine's sort of an array of fewer than 64 elements (a longer array is cut into
  runs that are merged, with the same result whenever the comparator is consistent).
  \<open>lt a b\<close> says that the comparator's result for \<open>(a, b)\<close> is negative; the engine
  takes a NaN result for 0 and asks nothing else of it.

  \<open>CountAndMakeRun\<close>: the run at the start of the array goes down when the second
  element is less than the first, and then lasts while each element is less than the one
  before it; otherwise it lasts while no element is less than the one before it. A run
  that goes down is reversed.
\<close>

fun extendRun :: "('a \<Rightarrow> 'a \<Rightarrow> bool) \<Rightarrow> bool \<Rightarrow> 'a \<Rightarrow> 'a list \<Rightarrow> nat" where
  "extendRun lt isDescending previousElement [] = 0"
| "extendRun lt isDescending previousElement (currentElement # rest) =
     (if (if isDescending then lt currentElement previousElement
          else \<not> lt currentElement previousElement)
      then Suc (extendRun lt isDescending currentElement rest)
      else 0)"

definition countAndMakeRun :: "('a \<Rightarrow> 'a \<Rightarrow> bool) \<Rightarrow> 'a list \<Rightarrow> 'a list \<times> 'a list" where
  "countAndMakeRun lt xs =
     (case xs of
        elementHigh # elementLow # rest \<Rightarrow>
          (let isDescending = lt elementLow elementHigh;
               runLength = 2 + extendRun lt isDescending elementLow rest
           in (if isDescending then rev (take runLength xs) else take runLength xs,
               drop runLength xs))
      | _ \<Rightarrow> (xs, []))"

text \<open>
  \<open>BinaryInsertionSort\<close>: each further element is the pivot; its place among the
  elements already in order is found by halving, going left when the pivot is less than
  the middle element and right otherwise.
\<close>

function binarySearch :: "('a \<Rightarrow> 'a \<Rightarrow> bool) \<Rightarrow> 'a \<Rightarrow> 'a list \<Rightarrow> nat \<Rightarrow> nat \<Rightarrow> nat" where
  "binarySearch lt pivot work left right =
     (if left < right
      then (if lt pivot (work ! (left + (right - left) div 2))
            then binarySearch lt pivot work left (left + (right - left) div 2)
            else binarySearch lt pivot work (left + (right - left) div 2 + 1) right)
      else left)"
  by pat_completeness auto
termination
  by (relation "measure (\<lambda>(lt, pivot, work, left, right). right - left)") auto

declare binarySearch.simps [simp del]

fun binaryInsertionSort :: "('a \<Rightarrow> 'a \<Rightarrow> bool) \<Rightarrow> 'a list \<Rightarrow> 'a list \<Rightarrow> 'a list" where
  "binaryInsertionSort lt work [] = work"
| "binaryInsertionSort lt work (pivot # rest) =
     binaryInsertionSort lt
       (take (binarySearch lt pivot work 0 (length work)) work
        @ pivot # drop (binarySearch lt pivot work 0 (length work)) work)
       rest"

definition arraySort :: "('a \<Rightarrow> 'a \<Rightarrow> bool) \<Rightarrow> 'a list \<Rightarrow> 'a list" where
  "arraySort lt xs =
     (if length xs < 2 then xs
      else binaryInsertionSort lt (fst (countAndMakeRun lt xs)) (snd (countAndMakeRun lt xs)))"

text \<open>
  The order of \<open>sort()\<close> with no comparator: strings by code units, a proper prefix
  first.
\<close>

fun stringLt :: "jstring \<Rightarrow> jstring \<Rightarrow> bool" where
  "stringLt a [] = False"
| "stringLt [] (y # ys) = True"
| "stringLt (x # xs) (y # ys) = (x < y \<or> (x = y \<and> stringLt xs ys))"

section \<open>escapeHtml\<close>

definition escapeHtml :: "jstring \<Rightarrow> jstring" where
  "escapeHtml str =
     replaceAll 39 (asc ''&#39;'')
       (replaceAll 34 (asc ''&quot;'')
         (replaceAll 62 (asc ''&gt;'')
           (replaceAll 60 (asc ''&lt;'')
             (replaceAll 38 (asc ''&amp;'') str))))"

section \<open>Schedule entries and the grid\<close>

text \<open>
  The objects pushed to \<open>events\<close>; field \<open>ev_x\<close> is the source's \<open>ev.x\<close>.
\<close>

record entry =
  ev_date :: jstring
  ev_start :: jstring
  ev_end :: jstring
  ev_dayOfWeek :: jstring
  ev_discipline :: jstring
  ev_type :: jstring
  ev_group :: jstring
  ev_building :: jstring
  ev_room :: jstring
  ev_teacher :: jstring

text \<open>
  \<open>parseInt(v, 10)\<close>: leading white space is skipped, then an optional sign and the
  longest run of decimal digits, read as a whole number; \<open>None\<close> is NaN (no digit).
\<close>

definition isWhiteSpace :: "nat \<Rightarrow> bool" where
  "isWhiteSpace c = (c \<in> {9, 10, 11, 12, 13, 32, 160, 5760, 8232, 8233, 8239, 8287, 12288, 65279}
     \<or> (8192 \<le> c \<and> c \<le> 8202))"

definition isDigit :: "nat \<Rightarrow> bool" where
  "isDigit c = (48 \<le> c \<and> c \<le> 57)"

definition digitsValue :: "jstring \<Rightarrow> int" where
  "digitsValue ds = foldl (\<lambda>acc c. 10 * acc + (int c - 48)) 0 ds"

definition parseDecimal :: "jstring \<Rightarrow> int option" where
  "parseDecimal s =
     (let ds = takeWhile isDigit s in if ds = [] then None else Some (digitsValue ds))"

definition parseInt10 :: "jstring \<Rightarrow> int option" where
  "parseInt10 v =
     (case dropWhile isWhiteSpace v of
        [] \<Rightarrow> None
      | c # cs \<Rightarrow>
          if c = 45 then map_option uminus (parseDecimal cs)
          else if c = 43 then parseDecimal cs
          else parseDecimal (c # cs))"

text \<open>
  A Number of the time comparator: NaN, an infinity, or a finite double of whole value
  (negative zero is taken for zero: the sort's tests do not tell them apart).
  \<open>roundToDouble\<close> is the double nearest to a whole number, ties to the even
  significand, an infinity from 2^1024 on.
\<close>

datatype number = NaN | NegInf | Fin int | PosInf

fun bitLength :: "nat \<Rightarrow> nat" where
  "bitLength n = (if n = 0 then 0 else Suc (bitLength (n div 2)))"

declare bitLength.simps [simp del]

definition roundToDouble :: "int \<Rightarrow> number" where
  "roundToDouble n =
     (if \<bar>n\<bar> \<le> 9007199254740992 then Fin n
      else
        (let a = nat \<bar>n\<bar>; e = bitLength a - 53; q = a div 2 ^ e; r = a mod 2 ^ e;
             q' = (if 2 * r > 2 ^ e \<or> (2 * r = 2 ^ e \<and> odd q) then q + 1 else q);
             v = int (q' * 2 ^ e)
         in if v \<ge> 2 ^ 1024 then (if n < 0 then NegInf else PosInf)
            else Fin (if n < 0 then - v else v)))"

definition toNumber :: "int option \<Rightarrow> number" where
  "toNumber v = (case v of None \<Rightarrow> NaN | Some n \<Rightarrow> roundToDouble n)"

text \<open>The product with the literal 60, the sum and the difference of two Numbers.\<close>

fun times60 :: "number \<Rightarrow> number" where
  "times60 (Fin n) = roundToDouble (n * 60)"
| "times60 x = x"

fun numNeg :: "number \<Rightarrow> number" where
  "numNeg (Fin n) = Fin (- n)"
| "numNeg NegInf = PosInf"
| "numNeg PosInf = NegInf"
| "numNeg NaN = NaN"

fun numAdd :: "number \<Rightarrow> number \<Rightarrow> number" where
  "numAdd NaN y = NaN"
| "numAdd x NaN = NaN"
| "numAdd (Fin a) (Fin b) = roundToDouble (a + b)"
| "numAdd PosInf NegInf = NaN"
| "numAdd NegInf PosInf = NaN"
| "numAdd (Fin a) y = y"
| "numAdd x y = x"

definition numSub :: "number \<Rightarrow> number \<Rightarrow> number" where
  "numSub x y = numAdd x (numNeg y)"

text \<open>
  The two numbers the comparator takes from a start,
  \<open>[h, m] = a.split(':').map(v => parseInt(v, 10))\<close>, as the whole numbers
  \<open>parseInt\<close> reads (\<open>None\<close> is NaN, also for a part that is missing).
\<close>

definition hourMinute :: "jstring \<Rightarrow> int option \<times> int option" where
  "hourMinute a =
     (case map parseInt10 (splitOn (\<lambda>c. c = 58) a) of
        h # m # _ \<Rightarrow> (h, m)
      | [h] \<Rightarrow> (h, None)
      | [] \<Rightarrow> (None, None))"

text \<open>\<open>h * 60 + m\<close>, in doubles.\<close>

definition minutesOf :: "jstring \<Rightarrow> number" where
  "minutesOf a =
     (case hourMinute a of (h, m) \<Rightarrow> numAdd (times60 (toNumber h)) (toNumber m))"

text \<open>The comparator \<open>ah * 60 + am - (bh * 60 + bm)\<close>, and whether its result is negative.\<close>

definition timeCompare :: "jstring \<Rightarrow> jstring \<Rightarrow> number" where
  "timeCompare a b = numSub (minutesOf a) (minutesOf b)"

definition isNegative :: "number \<Rightarrow> bool" where
  "isNegative x = (case x of Fin n \<Rightarrow> n < 0 | NegInf \<Rightarrow> True | _ \<Rightarrow> False)"

definition timeLt :: "jstring \<Rightarrow> jstring \<Rightarrow> bool" where
  "timeLt a b = isNegative (timeCompare a b)"

definition dailyEvents :: "entry list \<Rightarrow> jstring \<Rightarrow> jstring \<Rightarrow> entry list" where
  "dailyEvents events building date =
     filter (\<lambda>ev. ev_building ev = building \<and> ev_date ev = date) events"

definition rooms_sorted :: "entry list \<Rightarrow> jstring list" where
  "rooms_sorted daily = arraySort stringLt (uniq (map ev_room daily))"

definition times_sorted :: "entry list \<Rightarrow> jstring list" where
  "times_sorted daily = arraySort timeLt (uniq (map ev_start daily))"

text \<open>U+041F U+0430 U+0440 U+0430 (Para) and U+0412 U+0440 U+0435 U+043C U+044F (Vremya).\<close>

definition headCells :: jstring where
  "headCells = asc ''<th>'' @ [1055, 1072, 1088, 1072] @ asc ''</th><th>''
     @ [1042, 1088, 1077, 1084, 1103] @ asc ''</th>''"

text \<open>The placeholder of a free slot (Svobodno).\<close>

definition freeCell :: jstring where
  "freeCell = asc ''<td class=\"free\">'' @ [1057, 1074, 1086, 1073, 1086, 1076, 1085, 1086]
     @ asc ''</td>''"

definition cellHtml :: "entry list \<Rightarrow> jstring \<Rightarrow> jstring \<Rightarrow> jstring" where
  "cellHtml daily time room =
     (case find (\<lambda>e. ev_room e = room \<and> ev_start e = time) daily of
        Some ev \<Rightarrow>
          asc ''<td class=\"occupied\"><div class=\"subject\">'' @ escapeHtml (ev_discipline ev)
          @ asc ''</div><div class=\"group\">'' @ escapeHtml (ev_group ev) @ asc ''</div></td>''
      | None \<Rightarrow> freeCell)"

text \<open>One body row: \<open>idx\<close> is the index \<open>forEach\<close> passes, the label is \<open>idx + 1\<close>.\<close>

definition rowHtml :: "entry list \<Rightarrow> jstring list \<Rightarrow> nat \<Rightarrow> jstring \<Rightarrow> jstring" where
  "rowHtml daily rs idx time =
     asc ''<tr><td>'' @ natToString (idx + 1) @ asc ''</td><td>'' @ time @ asc ''</td>''
     @ concat (map (cellHtml daily time) rs) @ asc ''</tr>''"

definition bodyRows :: "entry list \<Rightarrow> jstring list" where
  "bodyRows daily =
     map (\<lambda>(idx, time). rowHtml daily (rooms_sorted daily) idx time)
       (enumerate 0 (times_sorted daily))"

definition tableHtml :: "entry list \<Rightarrow> jstring" where
  "tableHtml daily =
     asc ''<table class=\"schedule-table\"><thead><tr>'' @ headCells
     @ concat (map (\<lambda>room. asc ''<th>'' @ room @ asc ''</th>'') (rooms_sorted daily))
     @ asc ''</tr></thead><tbody>''
     @ concat (bodyRows daily)
     @ asc ''</tbody></table>''"

section \<open>The page: the store slot and the elements the script writes\<close>

text \<open>
  \<open>slot\<close> is \<open>localStorage\<close>'s item \<open>schedule\<close> (\<open>None\<close> when \<open>getItem\<close> returns
  null); the other fields are the properties of the document's elements that the script
  assigns, and the messages passed to \<open>alert\<close>.
\<close>

record page =
  slot :: "jstring option"
  statusText :: jstring
  controlsDisplay :: jstring
  replaceBtnDisplay :: jstring
  scheduleHtml :: jstring
  buildingSelectHtml :: jstring
  dateSelectHtml :: jstring
  buildingValue :: jstring
  dateValue :: jstring
  alerts :: "jstring list"

datatype exn = SyntaxError | TypeError | QuotaExceededError | ReadError

text \<open>
  \<open>JSON.parse\<close> belongs to the platform and is a parameter of the model, of this result
  type: \<open>Malformed\<close> when it throws SyntaxError, \<open>NotArray\<close> for a JSON text that is
  not an array, \<open>Entries\<close> for an array of entry objects (the only arrays the script
  stores; arrays of anything else are outside the model).
\<close>

datatype parsed = Malformed | NotArray | Entries "entry list"

text \<open>Net zanyatij dlya vybrannoj daty.\<close>

definition noClasses :: jstring where
  "noClasses = asc ''<p>'' @ [1053, 1077, 1090, 32, 1079, 1072, 1085, 1103, 1090, 1080, 1081, 32,
     1076, 1083, 1103, 32, 1074, 1099, 1073, 1088, 1072, 1085, 1085, 1086, 1081, 32, 1076, 1072,
     1090, 1099, 46] @ asc ''</p>''"

text \<open>
  A function of the script returns the page it leaves and the exception it throws, if
  any. \<open>renderSchedule\<close> reads the two selectors' values from the page.
\<close>

definition renderSchedule :: "(jstring \<Rightarrow> parsed) \<Rightarrow> page \<Rightarrow> page \<times> exn option" where
  "renderSchedule jsonParse pg =
     (case slot pg of
        None \<Rightarrow> (pg, None)
      | Some stored \<Rightarrow>
          if stored = [] then (pg, None)
          else (case jsonParse stored of
            Malformed \<Rightarrow> (pg, Some SyntaxError)
          | NotArray \<Rightarrow> (pg, Some TypeError)
          | Entries events \<Rightarrow>
              (let daily = dailyEvents events (buildingValue pg) (dateValue pg) in
               if daily = [] then (pg\<lparr>scheduleHtml := noClasses, statusText := []\<rparr>, None)
               else (pg\<lparr>scheduleHtml := tableHtml daily, statusText := []\<rparr>, None))))"

text \<open>Zagruzite fajl raspisaniya.\<close>

definition uploadPrompt :: jstring where
  "uploadPrompt = [1047, 1072, 1075, 1088, 1091, 1079, 1080, 1090, 1077, 32, 1092, 1072, 1081,
     1083, 32, 1088, 1072, 1089, 1087, 1080, 1089, 1072, 1085, 1080, 1103, 46]"

text \<open>Fajl raspisaniya ne soderzhit dannyh.\<close>

definition noData :: jstring where
  "noData = [1060, 1072, 1081, 1083, 32, 1088, 1072, 1089, 1087, 1080, 1089, 1072, 1085, 1080,
     1103, 32, 1085, 1077, 32, 1089, 1086, 1076, 1077, 1088, 1078, 1080, 1090, 32, 1076, 1072,
     1085, 1085, 1099, 1093, 46]"

text \<open>Neizvestnyj korpus.\<close>

definition unknownBuilding :: jstring where
  "unknownBuilding = [1053, 1077, 1080, 1079, 1074, 1077, 1089, 1090, 1085, 1099, 1081, 32, 1082,
     1086, 1088, 1087, 1091, 1089]"

text \<open>The four assignments every early return of \<open>initSchedule\<close> makes.\<close>

definition showEmpty :: "jstring \<Rightarrow> page \<Rightarrow> page" where
  "showEmpty msg pg =
     pg\<lparr>statusText := msg, controlsDisplay := asc ''none'', replaceBtnDisplay := asc ''none'',
        scheduleHtml := []\<rparr>"

definition buildingOption :: "jstring \<Rightarrow> jstring" where
  "buildingOption b =
     asc ''<option value=\"'' @ escapeHtml b @ asc ''\">''
     @ escapeHtml (if b = [] then unknownBuilding else b) @ asc ''</option>''"

definition dateOption :: "jstring \<Rightarrow> jstring" where
  "dateOption d = asc ''<option value=\"'' @ d @ asc ''\">'' @ escapeHtml d @ asc ''</option>''"

text \<open>
  Assigning a selector's \<open>innerHTML\<close> leaves its first option selected, so its value is
  the first element of the sorted list.
\<close>

definition firstOr :: "jstring list \<Rightarrow> jstring" where
  "firstOr xs = (case xs of [] \<Rightarrow> [] | x # _ \<Rightarrow> x)"

definition initSchedule :: "(jstring \<Rightarrow> parsed) \<Rightarrow> page \<Rightarrow> page \<times> exn option" where
  "initSchedule jsonParse pg =
     (case slot pg of
        None \<Rightarrow> (showEmpty uploadPrompt pg, None)
      | Some stored \<Rightarrow>
          if stored = [] then (showEmpty uploadPrompt pg, None)
          else (case jsonParse stored of
            Malformed \<Rightarrow> (showEmpty uploadPrompt (pg\<lparr>slot := None\<rparr>), None)
          | NotArray \<Rightarrow> (showEmpty noData pg, None)
          | Entries events \<Rightarrow>
              if events = [] then (showEmpty noData pg, None)
              else
                (let buildings = arraySort stringLt (uniq (map ev_building events));
                     dates = arraySort stringLt (uniq (map ev_date events))
                 in renderSchedule jsonParse
                      (pg\<lparr>replaceBtnDisplay := asc ''inline-block'',
                          buildingSelectHtml := concat (map buildingOption buildings),
                          dateSelectHtml := concat (map dateOption dates),
                          buildingValue := firstOr buildings,
                          dateValue := firstOr dates,
                          controlsDisplay := asc ''flex''\<rparr>))))"

section \<open>Sample inputs\<close>

text \<open>An entry with the six fields the grid reads; the other fields are empty.\<close>

definition sampleEntry ::
  "jstring \<Rightarrow> jstring \<Rightarrow> jstring \<Rightarrow> jstring \<Rightarrow> jstring \<Rightarrow> jstring \<Rightarrow> entry" where
  "sampleEntry building date start room discipline grp =
     \<lparr>ev_date = date, ev_start = start, ev_end = [], ev_dayOfWeek = [],
      ev_discipline = discipline, ev_type = [], ev_group = grp, ev_building = building,
      ev_room = room, ev_teacher = []\<rparr>"

text \<open>Building A on 2024-09-01 has rooms 101 and 205 and starts 09:00 and 10:45.\<close>

definition specDay :: "entry list" where
  "specDay =
     [sampleEntry (asc ''A'') (asc ''2024-09-01'') (asc ''10:45'') (asc ''205'') (asc ''Physics'')
        (asc ''G2''),
      sampleEntry (asc ''A'') (asc ''2024-09-01'') (asc ''09:00'') (asc ''101'') (asc ''Algebra'')
        (asc ''G1''),
      sampleEntry (asc ''B'') (asc ''2024-09-01'') (asc ''08:00'') (asc ''7'') (asc ''Art'')
        (asc ''G3'')]"

text \<open>
  Building A on 2024-09-01 with three entries, the second from a row whose start cell
  is blank: its start is the empty string.
\<close>

definition blankStartDay :: "entry list" where
  "blankStartDay =
     [sampleEntry (asc ''A'') (asc ''2024-09-01'') (asc ''10:00'') (asc ''101'') (asc ''Physics'')
        (asc ''G2''),
      sampleEntry (asc ''A'') (asc ''2024-09-01'') [] (asc ''102'') (asc ''Algebra'') (asc ''G1''),
      sampleEntry (asc ''A'') (asc ''2024-09-01'') (asc ''9:00'') (asc ''103'') (asc ''Art'')
        (asc ''G3'')]"

text \<open>One entry whose discipline, room and start carry markup.\<close>

definition markupDay :: "entry list" where
  "markupDay =
     [sampleEntry (asc ''A'') (asc ''2024-09-01'') (asc ''9:00<i>'') (asc ''<b>'')
        (asc ''<script>'') (asc ''G1'')]"

definition blankPage :: page where
  "blankPage =
     \<lparr>slot = None, statusText = [], controlsDisplay = [], replaceBtnDisplay = [],
      scheduleHtml = [], buildingSelectHtml = [], dateSelectHtml = [], buildingValue = [],
      dateValue = [], alerts = []\<rparr>"

text \<open>
  \<open>JSON.parse\<close> cut down to two texts: \<open>[]\<close> is the empty array, and a lone \<open>{\<close> is
  not JSON.
\<close>

definition parseTwoTexts :: "jstring \<Rightarrow> parsed" where
  "parseTwoTexts s = (if s = asc ''[]'' then Entries [] else Malformed)"

section \<open>Spreadsheet cells and the header\<close>

text \<open>
  A value of the 2-D array \<open>sheet_to_json\<close> returns: a string, a number, a boolean or a
  \<open>Date\<close> object (its time value in milliseconds, \<open>None\<close> for an invalid date).
  Numbers are modelled at whole values, which is what a day count is.
\<close>

datatype cell = Str jstring | Num int | Bool bool | DateCell "int option"

text \<open>\<open>String.prototype.trim\<close>.\<close>

definition trim :: "jstring \<Rightarrow> jstring" where
  "trim s = rev (dropWhile isWhiteSpace (rev (dropWhile isWhiteSpace s)))"

text \<open>The two labels of the header test: Data, and Vremya nachala.\<close>

definition labelDate :: jstring where
  "labelDate = [1044, 1072, 1090, 1072]"

definition labelStart :: jstring where
  "labelStart = [1042, 1088, 1077, 1084, 1103, 32, 1085, 1072, 1095, 1072, 1083, 1072]"

text \<open>\<open>rows.findIndex(...)\<close>: the first row that includes both labels, as whole cells.\<close>

fun findIndex :: "('a \<Rightarrow> bool) \<Rightarrow> 'a list \<Rightarrow> nat option" where
  "findIndex P [] = None"
| "findIndex P (x # xs) = (if P x then Some 0 else map_option Suc (findIndex P xs))"

definition headerIndex :: "cell list list \<Rightarrow> nat option" where
  "headerIndex rows =
     findIndex (\<lambda>row. Str labelDate \<in> set row \<and> Str labelStart \<in> set row) rows"

text \<open>
  \<open>headerRow.forEach((cell, idx) => ...)\<close> assigning \<open>headerMap[cell.trim()] = idx\<close> for
  the string cells that are not blank; the object is read at the fixed labels only.
\<close>

definition headerStep :: "(jstring \<rightharpoonup> nat) \<Rightarrow> nat \<times> cell \<Rightarrow> (jstring \<rightharpoonup> nat)" where
  "headerStep m p =
     (case snd p of
        Str s \<Rightarrow> if length (trim s) > 0 then m(trim s \<mapsto> fst p) else m
      | _ \<Rightarrow> m)"

definition headerMap :: "cell list \<Rightarrow> (jstring \<rightharpoonup> nat)" where
  "headerMap headerRow = foldl headerStep Map.empty (enumerate 0 headerRow)"

text \<open>A header row that repeats the date label.\<close>

definition repeatedHeader :: "cell list" where
  "repeatedHeader = [Str labelDate, Str labelStart, Str labelDate]"

section \<open>The service worker's fetch listener\<close>

text \<open>
  The cache storage is the list of named caches in creation order; a cache maps a
  request's URL to the response stored for it. Responses are left abstract.
  \<open>caches.match\<close> looks through the caches in order.
\<close>

record request =
  req_method :: jstring
  req_url :: jstring
  req_mode :: jstring

type_synonym 'r cacheStorage = "(jstring \<times> (jstring \<rightharpoonup> 'r)) list"

definition CACHE_NAME :: jstring where
  "CACHE_NAME = asc ''schedule-pwa-v1''"

fun cachesMatch :: "'r cacheStorage \<Rightarrow> jstring \<Rightarrow> 'r option" where
  "cachesMatch [] u = None"
| "cachesMatch ((n, c) # cs) u = (case c u of Some r \<Rightarrow> Some r | None \<Rightarrow> cachesMatch cs u)"

text \<open>\<open>caches.open(name)\<close> creates the cache when there is none of that name.\<close>

definition cachesOpen :: "jstring \<Rightarrow> 'r cacheStorage \<Rightarrow> 'r cacheStorage" where
  "cachesOpen name cs = (if name \<in> fst ` set cs then cs else cs @ [(name, Map.empty)])"

text \<open>\<open>cache.put(request, response)\<close> on the cache called \<open>name\<close>.\<close>

definition cachePut :: "jstring \<Rightarrow> jstring \<Rightarrow> 'r \<Rightarrow> 'r cacheStorage \<Rightarrow> 'r cacheStorage" where
  "cachePut name u r cs = map (\<lambda>(n, c). if n = name then (n, c(u \<mapsto> r)) else (n, c)) cs"

text \<open>What the cache called \<open>name\<close> holds for a URL.\<close>

definition cacheLookup :: "'r cacheStorage \<Rightarrow> jstring \<Rightarrow> jstring \<Rightarrow> 'r option" where
  "cacheLookup cs name u = (case map_of cs name of None \<Rightarrow> None | Some c \<Rightarrow> c u)"

text \<open>
  What the listener does with the event: it returns without \<open>respondWith\<close>, or responds
  with a promise that settles to a response or to \<open>undefined\<close>.
\<close>

datatype 'r handled = NotHandled | Responded "'r option"

text \<open>
  The platform's parts are parameters: \<open>originOf\<close> is \<open>new URL(u).origin\<close>,
  \<open>locationOrigin\<close> is \<open>location.origin\<close>, \<open>net\<close> is \<open>fetch\<close> (\<open>None\<close> when it rejects),
  \<open>storable\<close> says whether \<open>cache.put\<close> accepts the response (it rejects a partial
  one), \<open>indexUrl\<close> is the URL \<open>index.html\<close> resolves to.
\<close>

definition fetchListener ::
  "(jstring \<Rightarrow> jstring) \<Rightarrow> jstring \<Rightarrow> (request \<Rightarrow> 'r option) \<Rightarrow> ('r \<Rightarrow> bool) \<Rightarrow> jstring
   \<Rightarrow> 'r cacheStorage \<Rightarrow> request \<Rightarrow> 'r handled \<times> 'r cacheStorage" where
  "fetchListener originOf locationOrigin net storable indexUrl cs request =
     (if req_method request \<noteq> asc ''GET'' then (NotHandled, cs)
      else (case cachesMatch cs (req_url request) of
        Some cachedResponse \<Rightarrow> (Responded (Some cachedResponse), cs)
      | None \<Rightarrow>
          (case net request of
             Some response \<Rightarrow>
               if originOf (req_url request) = locationOrigin
               then (Responded (Some response),
                     if storable response
                     then cachePut CACHE_NAME (req_url request) response (cachesOpen CACHE_NAME cs)
                     else cachesOpen CACHE_NAME cs)
               else (Responded (Some response), cs)
           | None \<Rightarrow>
               if req_mode request = asc ''navigate''
               then (Responded (cachesMatch cs indexUrl), cs)
               else (Responded None, cs))))"

text \<open>A POST request, and an origin function that reads every URL as the same origin.\<close>

definition postRequest :: request where
  "postRequest =
     \<lparr>req_method = asc ''POST'', req_url = asc ''https://app.example/save'',
      req_mode = asc ''cors''\<rparr>"

definition getRequest :: request where
  "getRequest =
     \<lparr>req_method = asc ''GET'', req_url = asc ''https://app.example/style.css'',
      req_mode = asc ''no-cors''\<rparr>"

section \<open>Dates\<close>

text \<open>
  The platform's \<open>Date\<close>, after ECMA-262: a time value is a whole number of milliseconds
  since 1970-01-01T00:00:00Z, \<open>None\<close> is NaN (an invalid date). The Number values that
  reach it are whole, so they are integers here. \<open>yearOfDay\<close> computes the largest year
  whose first day is not after the given day, from an estimate that is off by at most one.
\<close>

definition msPerDay :: int where
  "msPerDay = 86400000"

definition DaysInYear :: "int \<Rightarrow> int" where
  "DaysInYear y =
     (if y mod 4 \<noteq> 0 then 365 else if y mod 100 \<noteq> 0 then 366
      else if y mod 400 \<noteq> 0 then 365 else 366)"

definition DayFromYear :: "int \<Rightarrow> int" where
  "DayFromYear y =
     365 * (y - 1970) + (y - 1969) div 4 - (y - 1901) div 100 + (y - 1601) div 400"

definition yearOfDay :: "int \<Rightarrow> int" where
  "yearOfDay d =
     (let y0 = 1970 + (400 * d) div 146097 in
      if d < DayFromYear y0 then y0 - 1
      else if DayFromYear (y0 + 1) \<le> d then y0 + 1
      else y0)"

text \<open>\<open>InLeapYear\<close>, as 0 or 1.\<close>

definition leapDays :: "int \<Rightarrow> int" where
  "leapDays y = DaysInYear y - 365"

text \<open>The day within the year on which month \<open>m\<close> (0 to 11) starts.\<close>

definition monthStart :: "int \<Rightarrow> int \<Rightarrow> int" where
  "monthStart l m =
     (if m = 0 then 0 else if m = 1 then 31 else if m = 2 then 59 + l
      else if m = 3 then 90 + l else if m = 4 then 120 + l else if m = 5 then 151 + l
      else if m = 6 then 181 + l else if m = 7 then 212 + l else if m = 8 then 243 + l
      else if m = 9 then 273 + l else if m = 10 then 304 + l else 334 + l)"

definition Day :: "int \<Rightarrow> int" where
  "Day t = t div msPerDay"

definition YearFromTime :: "int \<Rightarrow> int" where
  "YearFromTime t = yearOfDay (Day t)"

definition DayWithinYear :: "int \<Rightarrow> int" where
  "DayWithinYear t = Day t - DayFromYear (YearFromTime t)"

definition MonthFromTime :: "int \<Rightarrow> int" where
  "MonthFromTime t =
     (let d = DayWithinYear t; l = leapDays (YearFromTime t) in
      if d < 31 then 0 else if d < 59 + l then 1 else if d < 90 + l then 2
      else if d < 120 + l then 3 else if d < 151 + l then 4 else if d < 181 + l then 5
      else if d < 212 + l then 6 else if d < 243 + l then 7 else if d < 273 + l then 8
      else if d < 304 + l then 9 else if d < 334 + l then 10 else 11)"

definition DateFromTime :: "int \<Rightarrow> int" where
  "DateFromTime t =
     DayWithinYear t - monthStart (leapDays (YearFromTime t)) (MonthFromTime t) + 1"

text \<open>\<open>MakeDay\<close>: months beyond 0 to 11 carry into the year, days beyond the month roll on.\<close>

definition MakeDay :: "int \<Rightarrow> int \<Rightarrow> int \<Rightarrow> int" where
  "MakeDay year month date =
     (let ym = year + month div 12; mn = month mod 12 in
      DayFromYear ym + monthStart (leapDays ym) mn + date - 1)"

definition TimeClip :: "int \<Rightarrow> int option" where
  "TimeClip t = (if \<bar>t\<bar> \<le> 8640000000000000 then Some t else None)"

text \<open>
  \<open>new Date(year, month, date)\<close> in a zone whose offset from UTC is \<open>tza\<close> milliseconds:
  a year from 0 to 99 means 1900 + year, a NaN argument gives an invalid date.
\<close>

definition newDateLocal :: "int \<Rightarrow> int option \<Rightarrow> int option \<Rightarrow> int option \<Rightarrow> int option" where
  "newDateLocal tza year month date =
     (case (year, month, date) of
        (Some y, Some m, Some d) \<Rightarrow>
          TimeClip (MakeDay (if 0 \<le> y \<and> y \<le> 99 then 1900 + y else y) m d * msPerDay - tza)
      | _ \<Rightarrow> None)"

text \<open>\<open>getFullYear\<close>, \<open>getMonth\<close>, \<open>getDate\<close>: fields of the local time.\<close>

definition getFullYear :: "int \<Rightarrow> int option \<Rightarrow> int option" where
  "getFullYear tza dateObj = map_option (\<lambda>t. YearFromTime (t + tza)) dateObj"

definition getMonth :: "int \<Rightarrow> int option \<Rightarrow> int option" where
  "getMonth tza dateObj = map_option (\<lambda>t. MonthFromTime (t + tza)) dateObj"

definition getDate :: "int \<Rightarrow> int option \<Rightarrow> int option" where
  "getDate tza dateObj = map_option (\<lambda>t. DateFromTime (t + tza)) dateObj"

text \<open>
  \<open>Number.prototype.toString\<close> at NaN and at a whole number (below 10^21 in size, where
  the platform writes all the digits), and \<open>padStart\<close>.
\<close>

definition numToString :: "int option \<Rightarrow> jstring" where
  "numToString v =
     (case v of
        None \<Rightarrow> asc ''NaN''
      | Some n \<Rightarrow> if n < 0 then 45 # natToString (nat (- n)) else natToString (nat n))"

definition padStart :: "nat \<Rightarrow> nat \<Rightarrow> jstring \<Rightarrow> jstring" where
  "padStart n c s = replicate (n - length s) c @ s"

text \<open>Lines 114 to 117: the three fields, padded and joined.\<close>

definition isoDate :: "int \<Rightarrow> int option \<Rightarrow> jstring" where
  "isoDate tza dateObj =
     padStart 4 48 (numToString (getFullYear tza dateObj)) @ asc ''-''
     @ padStart 2 48 (numToString (map_option (\<lambda>m. m + 1) (getMonth tza dateObj))) @ asc ''-''
     @ padStart 2 48 (numToString (getDate tza dateObj))"

text \<open>
  \<open>parseInt(v)\<close> with no radix: white space, a sign, then hexadecimal digits after
  \<open>0x\<close> or \<open>0X\<close> and decimal digits otherwise.
\<close>

definition isHexDigit :: "nat \<Rightarrow> bool" where
  "isHexDigit c = (isDigit c \<or> (97 \<le> c \<and> c \<le> 102) \<or> (65 \<le> c \<and> c \<le> 70))"

definition hexValue :: "nat \<Rightarrow> int" where
  "hexValue c = (if isDigit c then int c - 48 else if 97 \<le> c then int c - 87 else int c - 55)"

definition parseHex :: "jstring \<Rightarrow> int option" where
  "parseHex s =
     (let ds = takeWhile isHexDigit s in
      if ds = [] then None else Some (foldl (\<lambda>acc c. 16 * acc + hexValue c) 0 ds))"

definition parseUnsigned :: "jstring \<Rightarrow> int option" where
  "parseUnsigned s =
     (if length s \<ge> 2 \<and> s ! 0 = 48 \<and> (s ! 1 = 120 \<or> s ! 1 = 88) then parseHex (drop 2 s)
      else parseDecimal s)"

definition parseInt :: "jstring \<Rightarrow> int option" where
  "parseInt v =
     (case dropWhile isWhiteSpace v of
        [] \<Rightarrow> None
      | c # cs \<Rightarrow>
          if c = 45 then map_option uminus (parseUnsigned cs)
          else if c = 43 then parseUnsigned cs
          else parseUnsigned (c # cs))"

text \<open>
  \<open>Date.parse\<close>. The date-only form \<open>YYYY-MM-DD\<close> of a valid calendar date is midnight
  UTC of that date, as the language fixes it; every other text is left to the
  platform's parser, a parameter.
\<close>

definition daysInMonth :: "int \<Rightarrow> int \<Rightarrow> int" where
  "daysInMonth y m =
     (if m = 2 then 28 + leapDays y else if m = 4 \<or> m = 6 \<or> m = 9 \<or> m = 11 then 30 else 31)"

definition isoDateOnly :: "jstring \<Rightarrow> int option" where
  "isoDateOnly s =
     (if length s = 10 \<and> s ! 4 = 45 \<and> s ! 7 = 45 \<and> list_all isDigit (take 4 s)
         \<and> list_all isDigit (take 2 (drop 5 s)) \<and> list_all isDigit (drop 8 s)
      then
        (let y = digitsValue (take 4 s); m = digitsValue (take 2 (drop 5 s));
             d = digitsValue (drop 8 s)
         in if 1 \<le> m \<and> m \<le> 12 \<and> 1 \<le> d \<and> d \<le> daysInMonth y m
            then Some (MakeDay y (m - 1) d * msPerDay) else None)
      else None)"

definition dateParse :: "(jstring \<Rightarrow> int option) \<Rightarrow> jstring \<Rightarrow> int option" where
  "dateParse other s = (case isoDateOnly s of Some t \<Rightarrow> Some t | None \<Rightarrow> other s)"

section \<open>The platform\<close>

text \<open>
  What the script takes from the browser: the local zone's offset from UTC in
  milliseconds (taken constant), the rest of \<open>Date.parse\<close>, \<open>Date.prototype.toString\<close>,
  \<open>JSON.stringify\<close> on the entry list, \<open>JSON.parse\<close>, and whether \<open>localStorage\<close> has room
  for a text (\<open>setItem\<close> throws QuotaExceededError when it has not).
\<close>

record platform =
  pf_tza :: int
  pf_dateParse :: "jstring \<Rightarrow> int option"
  pf_dateToString :: "int option \<Rightarrow> jstring"
  pf_stringify :: "entry list \<Rightarrow> jstring"
  pf_parse :: "jstring \<Rightarrow> parsed"
  pf_fits :: "jstring \<Rightarrow> bool"

section \<open>parseScheduleFile\<close>

text \<open>
  Lines 97 to 113: the \<open>Date\<close> object for a date cell. A boolean is not an instance of
  Date nor a number; its text has no separator, so it goes to \<open>new Date(rawDate)\<close>, which
  converts it to the number 1 or 0.
\<close>

definition dateObj :: "platform \<Rightarrow> cell \<Rightarrow> int option" where
  "dateObj P rawDate =
     (case rawDate of
        DateCell t \<Rightarrow> t
      | Num n \<Rightarrow>
          (case TimeClip (MakeDay 1899 11 30 * msPerDay) of
             None \<Rightarrow> None
           | Some epoch \<Rightarrow> TimeClip (epoch + n * 24 * 60 * 60 * 1000))
      | Str s \<Rightarrow>
          (case splitOn (\<lambda>c. c = 46 \<or> c = 47) s of
             [d, m, y] \<Rightarrow>
               newDateLocal (pf_tza P) (parseInt y) (map_option (\<lambda>x. x - 1) (parseInt m))
                 (parseInt d)
           | _ \<Rightarrow> Option.bind (dateParse (pf_dateParse P) s) TimeClip)
      | Bool b \<Rightarrow> TimeClip (if b then 1 else 0))"

definition isoDateOfCell :: "platform \<Rightarrow> cell \<Rightarrow> jstring" where
  "isoDateOfCell P rawDate = isoDate (pf_tza P) (dateObj P rawDate)"

text \<open>\<open>row[headerMap[label]]\<close>: \<open>None\<close> is undefined.\<close>

definition cellAt :: "cell list \<Rightarrow> nat option \<Rightarrow> cell option" where
  "cellAt row idx =
     (case idx of None \<Rightarrow> None | Some i \<Rightarrow> if i < length row then Some (row ! i) else None)"

text \<open>What JavaScript takes for true.\<close>

definition truthy :: "cell option \<Rightarrow> bool" where
  "truthy v =
     (case v of
        None \<Rightarrow> False
      | Some (Str s) \<Rightarrow> s \<noteq> []
      | Some (Num n) \<Rightarrow> n \<noteq> 0
      | Some (Bool b) \<Rightarrow> b
      | Some (DateCell t) \<Rightarrow> True)"

definition cellToString :: "platform \<Rightarrow> cell \<Rightarrow> jstring" where
  "cellToString P c =
     (case c of
        Str s \<Rightarrow> s
      | Num n \<Rightarrow> numToString (Some n)
      | Bool b \<Rightarrow> if b then asc ''true'' else asc ''false''
      | DateCell t \<Rightarrow> pf_dateToString P t)"

text \<open>\<open>(row[headerMap[label]] || '').toString().trim()\<close>.\<close>

definition fieldText :: "platform \<Rightarrow> cell list \<Rightarrow> nat option \<Rightarrow> jstring" where
  "fieldText P row idx =
     (case cellAt row idx of
        None \<Rightarrow> trim []
      | Some c \<Rightarrow> if truthy (Some c) then trim (cellToString P c) else trim [])"

text \<open>
  The other labels: Vremya okonchaniya, Den' nedeli, Disciplina, Vid raboty, Kontingent,
  Korpus, Auditoriya, Prepodavatel'.
\<close>

definition labelEnd :: jstring where
  "labelEnd = [1042, 1088, 1077, 1084, 1103, 32, 1086, 1082, 1086, 1085, 1095, 1072, 1085, 1080,
     1103]"

definition labelDayOfWeek :: jstring where
  "labelDayOfWeek = [1044, 1077, 1085, 1100, 32, 1085, 1077, 1076, 1077, 1083, 1080]"

definition labelDiscipline :: jstring where
  "labelDiscipline = [1044, 1080, 1089, 1094, 1080, 1087, 1083, 1080, 1085, 1072]"

definition labelType :: jstring where
  "labelType = [1042, 1080, 1076, 32, 1088, 1072, 1073, 1086, 1090, 1099]"

definition labelGroup :: jstring where
  "labelGroup = [1050, 1086, 1085, 1090, 1080, 1085, 1075, 1077, 1085, 1090]"

definition labelBuilding :: jstring where
  "labelBuilding = [1050, 1086, 1088, 1087, 1091, 1089]"

definition labelRoom :: jstring where
  "labelRoom = [1040, 1091, 1076, 1080, 1090, 1086, 1088, 1080, 1103]"

definition labelTeacher :: jstring where
  "labelTeacher = [1055, 1088, 1077, 1087, 1086, 1076, 1072, 1074, 1072, 1090, 1077, 1083, 1100]"

text \<open>The object pushed for a row whose date cell is \<open>rawDate\<close>.\<close>

definition rowEvent :: "platform \<Rightarrow> (jstring \<rightharpoonup> nat) \<Rightarrow> cell list \<Rightarrow> cell \<Rightarrow> entry" where
  "rowEvent P hm row rawDate =
     \<lparr>ev_date = isoDateOfCell P rawDate,
      ev_start = fieldText P row (hm labelStart),
      ev_end = fieldText P row (hm labelEnd),
      ev_dayOfWeek = fieldText P row (hm labelDayOfWeek),
      ev_discipline = fieldText P row (hm labelDiscipline),
      ev_type = fieldText P row (hm labelType),
      ev_group = fieldText P row (hm labelGroup),
      ev_building = fieldText P row (hm labelBuilding),
      ev_room = fieldText P row (hm labelRoom),
      ev_teacher = fieldText P row (hm labelTeacher)\<rparr>"

text \<open>One pass of \<open>dataRows.forEach\<close>: return on a false date cell, push otherwise.\<close>

definition eventsStep ::
  "platform \<Rightarrow> (jstring \<rightharpoonup> nat) \<Rightarrow> entry list \<Rightarrow> cell list \<Rightarrow> entry list" where
  "eventsStep P hm events row =
     (case cellAt row (hm labelDate) of
        None \<Rightarrow> events
      | Some rawDate \<Rightarrow>
          if \<not> truthy (Some rawDate) then events else events @ [rowEvent P hm row rawDate])"

text \<open>Lines 74 to 129: \<open>None\<close> when there is no header row, the events otherwise.\<close>

definition parseRows :: "platform \<Rightarrow> cell list list \<Rightarrow> entry list option" where
  "parseRows P rows =
     (case headerIndex rows of
        None \<Rightarrow> None
      | Some headerIdx \<Rightarrow>
          (let hm = headerMap (rows ! headerIdx);
               dataRows = filter (\<lambda>r. length r > 0 \<and> truthy (cellAt r (hm labelDate)))
                            (drop (headerIdx + 1) rows)
           in Some (foldl (eventsStep P hm) [] dataRows)))"

text \<open>
  The two alerts: Ne udalos' najti stroku zagolovka v fajle \<open>\<dots>\<close> and Proizoshla oshibka pri
  chtenii fajla \<open>\<dots>\<close>.
\<close>

definition headerNotFound :: jstring where
  "headerNotFound = [1053, 1077, 32, 1091, 1076, 1072, 1083, 1086, 1089, 1100, 32, 1085, 1072,
     1081, 1090, 1080, 32, 1089, 1090, 1088, 1086, 1082, 1091, 32, 1079, 1072, 1075, 1086, 1083,
     1086, 1074, 1082, 1072, 32, 1074, 32, 1092, 1072, 1081, 1083, 1077, 46, 32, 1059, 1073, 1077,
     1076, 1080, 1090, 1077, 1089, 1100, 44, 32, 1095, 1090, 1086, 32, 1092, 1072, 1081, 1083, 32,
     1089, 1086, 1086, 1090, 1074, 1077, 1090, 1089, 1090, 1074, 1091, 1077, 1090, 32, 1096, 1072,
     1073, 1083, 1086, 1085, 1091, 46]"

definition parseError :: jstring where
  "parseError = [1055, 1088, 1086, 1080, 1079, 1086, 1096, 1083, 1072, 32, 1086, 1096, 1080, 1073,
     1082, 1072, 32, 1087, 1088, 1080, 32, 1095, 1090, 1077, 1085, 1080, 1080, 32, 1092, 1072,
     1081, 1083, 1072, 46, 32, 1055, 1088, 1086, 1074, 1077, 1088, 1100, 1090, 1077, 32, 1092,
     1086, 1088, 1084, 1072, 1090, 32, 1080, 32, 1087, 1086, 1087, 1088, 1086, 1073, 1091, 1081,
     1090, 1077, 32, 1089, 1085, 1086, 1074, 1072, 46]"

definition alert :: "jstring \<Rightarrow> page \<Rightarrow> page" where
  "alert msg pg = pg\<lparr>alerts := alerts pg @ [msg]\<rparr>"

text \<open>
  The \<open>onload\<close> handler. \<open>sheet\<close> is what lines 67 to 72 give for the file: the exception
  the reader throws, or the rows of the first sheet. The second component of the result
  is the exception the \<open>catch\<close> block caught and logged, if any.
\<close>

definition parseScheduleFile :: "platform \<Rightarrow> exn + cell list list \<Rightarrow> page \<Rightarrow> page \<times> exn option" where
  "parseScheduleFile P sheet pg =
     (case sheet of
        Inl err \<Rightarrow> (alert parseError pg, Some err)
      | Inr rows \<Rightarrow>
          (case parseRows P rows of
             None \<Rightarrow> (alert headerNotFound pg, None)
           | Some events \<Rightarrow>
               if \<not> pf_fits P (pf_stringify P events)
               then (alert parseError pg, Some QuotaExceededError)
               else
                 (case initSchedule (pf_parse P) (pg\<lparr>slot := Some (pf_stringify P events)\<rparr>) of
                    (pg', None) \<Rightarrow> (pg', None)
                  | (pg', Some err) \<Rightarrow> (alert parseError pg', Some err))))"

text \<open>
  Two platforms for the sample inputs: one on UTC, one five hours behind it. Their
  \<open>Date.parse\<close> knows the date-only form alone and their JSON functions the empty list
  alone.
\<close>

definition utcPlatform :: platform where
  "utcPlatform =
     \<lparr>pf_tza = 0, pf_dateParse = (\<lambda>s. None), pf_dateToString = (\<lambda>t. asc ''date''),
      pf_stringify = (\<lambda>es. asc ''[]''), pf_parse = parseTwoTexts, pf_fits = (\<lambda>s. True)\<rparr>"

definition westPlatform :: platform where
  "westPlatform = utcPlatform\<lparr>pf_tza := - 18000000\<rparr>"

text \<open>A sheet whose second data row has the number 0 in the date column.\<close>

definition zeroDateSheet :: "cell list list" where
  "zeroDateSheet =
     [[Str labelDate, Str labelStart],
      [Str (asc ''01.09.2024''), Str (asc ''09:00'')],
      [Num 0, Str (asc ''10:45'')],
      [Str [], Str (asc ''12:30'')],
      [Num 45536, Str (asc ''14:15'')]]"


section \<open>Evaluation\<close>

lemmas string_eval = asc_def escapeHtml_def replaceAll_def natToString.simps
lemmas number_eval = parseInt10_def parseDecimal_def isDigit_def isWhiteSpace_def digitsValue_def
lemmas time_eval = timeLt_def timeCompare_def minutesOf_def hourMinute_def numSub_def
  toNumber_def roundToDouble_def isNegative_def
lemmas grid_eval = dailyEvents_def times_sorted_def rooms_sorted_def arraySort_def
  countAndMakeRun_def bodyRows_def rowHtml_def cellHtml_def tableHtml_def headCells_def
  freeCell_def sampleEntry_def

section \<open>Sorting\<close>

lemma set_uniq: "set (uniq xs) = set xs"
  by (induction xs rule: uniq.induct) auto

lemma distinct_uniq: "distinct (uniq xs)"
  by (induction xs rule: uniq.induct) (auto simp: set_uniq)

lemma set_insert_at: "set (take k w @ p # drop k w) = insert p (set w)"
proof -
  have "set (take k w) \<union> set (drop k w) = set w"
    by (metis append_take_drop_id set_append)
  then show ?thesis by auto
qed

lemma distinct_insert_at: "distinct (take k w @ p # drop k w) \<longleftrightarrow> p \<notin> set w \<and> distinct w"
proof -
  have d: "distinct (take k w @ drop k w) = distinct w" by simp
  have s: "set (take k w) \<union> set (drop k w) = set w"
    by (metis append_take_drop_id set_append)
  from d s show ?thesis by (auto simp: distinct_append simp del: append_take_drop_id)
qed

lemma set_binaryInsertionSort: "set (binaryInsertionSort lt w rest) = set w \<union> set rest"
  by (induction rest arbitrary: w) (simp_all add: set_insert_at del: set_append)

lemma distinct_binaryInsertionSort:
  "distinct (binaryInsertionSort lt w rest) \<longleftrightarrow> distinct (w @ rest)"
proof (induction rest arbitrary: w)
  case Nil
  then show ?case by simp
next
  case (Cons p rest)
  let ?k = "binarySearch lt p w 0 (length w)"
  have "distinct (binaryInsertionSort lt w (p # rest))
      \<longleftrightarrow> distinct ((take ?k w @ p # drop ?k w) @ rest)"
    unfolding binaryInsertionSort.simps by (rule Cons.IH)
  also have "\<dots> \<longleftrightarrow> distinct (take ?k w @ p # drop ?k w) \<and> distinct rest
      \<and> set (take ?k w @ p # drop ?k w) \<inter> set rest = {}"
    by (rule distinct_append)
  also have "\<dots> \<longleftrightarrow> distinct (w @ p # rest)"
    unfolding set_insert_at distinct_insert_at by auto
  finally show ?case .
qed

lemma countAndMakeRun_shape:
  "\<exists>n. (fst (countAndMakeRun lt xs) = take n xs \<or> fst (countAndMakeRun lt xs) = rev (take n xs))
     \<and> snd (countAndMakeRun lt xs) = drop n xs"
proof (cases xs)
  case Nil
  then show ?thesis by (simp add: countAndMakeRun_def)
next
  case (Cons a ys)
  show ?thesis
  proof (cases ys)
    case Nil
    with Cons have "fst (countAndMakeRun lt xs) = take 1 xs \<and> snd (countAndMakeRun lt xs) = drop 1 xs"
      by (simp add: countAndMakeRun_def)
    then show ?thesis by blast
  next
    case (Cons b rest)
    with \<open>xs = a # ys\<close> have x: "xs = a # b # rest" by simp
    let ?n = "2 + extendRun lt (lt b a) b rest"
    have "(fst (countAndMakeRun lt xs) = take ?n xs \<or> fst (countAndMakeRun lt xs) = rev (take ?n xs))
      \<and> snd (countAndMakeRun lt xs) = drop ?n xs"
      unfolding x by (simp add: countAndMakeRun_def Let_def)
    then show ?thesis by blast
  qed
qed

lemma countAndMakeRun_parts:
  "set (fst (countAndMakeRun lt xs)) \<union> set (snd (countAndMakeRun lt xs)) = set xs"
  "distinct (fst (countAndMakeRun lt xs) @ snd (countAndMakeRun lt xs)) \<longleftrightarrow> distinct xs"
proof -
  from countAndMakeRun_shape [of lt xs] obtain n where
    n: "fst (countAndMakeRun lt xs) = take n xs \<or> fst (countAndMakeRun lt xs) = rev (take n xs)"
      "snd (countAndMakeRun lt xs) = drop n xs"
    by blast
  have s: "set (take n xs) \<union> set (drop n xs) = set xs"
    by (metis append_take_drop_id set_append)
  have d: "distinct (rev (take n xs) @ drop n xs) = distinct xs"
    by (metis append_take_drop_id distinct_append distinct_rev set_rev)
  have d': "distinct (take n xs @ drop n xs) = distinct xs" by simp
  from n s show "set (fst (countAndMakeRun lt xs)) \<union> set (snd (countAndMakeRun lt xs)) = set xs"
    by (elim disjE) simp_all
  from n d d' show "distinct (fst (countAndMakeRun lt xs) @ snd (countAndMakeRun lt xs)) \<longleftrightarrow> distinct xs"
    by (elim disjE) (simp_all only:)
qed

lemma set_arraySort: "set (arraySort lt xs) = set xs"
  by (simp add: arraySort_def set_binaryInsertionSort countAndMakeRun_parts)

lemma distinct_arraySort: "distinct (arraySort lt xs) = distinct xs"
  by (simp add: arraySort_def distinct_binaryInsertionSort countAndMakeRun_parts
      del: distinct_append)


text \<open>Under a comparator that compares by a key, the result is in the order of the keys.\<close>

lemma extendRun_ascending:
  fixes key :: "'a \<Rightarrow> int"
  assumes "\<forall>a\<in>insert p (set xs). \<forall>b\<in>insert p (set xs). lt a b \<longleftrightarrow> key a < key b"
  shows "sorted_wrt (\<lambda>a b. key a \<le> key b) (p # take (extendRun lt False p xs) xs)"
  using assms
proof (induction xs arbitrary: p)
  case Nil
  then show ?case by simp
next
  case (Cons x xs)
  show ?case
  proof (cases "lt x p")
    case True
    then show ?thesis by simp
  next
    case False
    with Cons.prems have px: "key p \<le> key x" by auto
    have "sorted_wrt (\<lambda>a b. key a \<le> key b) (x # take (extendRun lt False x xs) xs)"
      using Cons.prems by (intro Cons.IH) auto
    with px False show ?thesis by auto
  qed
qed

lemma extendRun_descending:
  fixes key :: "'a \<Rightarrow> int"
  assumes "\<forall>a\<in>insert p (set xs). \<forall>b\<in>insert p (set xs). lt a b \<longleftrightarrow> key a < key b"
  shows "sorted_wrt (\<lambda>a b. key b < key a) (p # take (extendRun lt True p xs) xs)"
  using assms
proof (induction xs arbitrary: p)
  case Nil
  then show ?case by simp
next
  case (Cons x xs)
  show ?case
  proof (cases "lt x p")
    case False
    then show ?thesis by simp
  next
    case True
    with Cons.prems have px: "key x < key p" by auto
    have "sorted_wrt (\<lambda>a b. key b < key a) (x # take (extendRun lt True x xs) xs)"
      using Cons.prems by (intro Cons.IH) auto
    with px True show ?thesis by auto
  qed
qed

lemma countAndMakeRun_sorted:
  fixes key :: "'a \<Rightarrow> int"
  assumes "\<forall>a\<in>set xs. \<forall>b\<in>set xs. lt a b \<longleftrightarrow> key a < key b"
  shows "sorted_wrt (\<lambda>a b. key a \<le> key b) (fst (countAndMakeRun lt xs))"
proof (cases xs)
  case Nil
  then show ?thesis by (simp add: countAndMakeRun_def)
next
  case (Cons a ys)
  show ?thesis
  proof (cases ys)
    case Nil
    with Cons show ?thesis by (simp add: countAndMakeRun_def)
  next
    case (Cons b rest)
    with \<open>xs = a # ys\<close> have x: "xs = a # b # rest" by simp
    have c: "\<forall>u\<in>insert b (set rest). \<forall>v\<in>insert b (set rest). lt u v \<longleftrightarrow> key u < key v"
      using assms x by auto
    have ab: "lt b a \<longleftrightarrow> key b < key a" using assms x by auto
    show ?thesis
    proof (cases "lt b a")
      case True
      let ?k = "extendRun lt True b rest"
      have "sorted_wrt (\<lambda>u v. key v < key u) (b # take ?k rest)"
        using c by (rule extendRun_descending)
      moreover from this have "\<forall>v\<in>set (b # take ?k rest). key v \<le> key b" by auto
      ultimately have "sorted_wrt (\<lambda>u v. key v < key u) (a # b # take ?k rest)"
        using True ab by auto
      then have "sorted_wrt (\<lambda>u v. key u < key v) (rev (a # b # take ?k rest))"
        by (simp only: sorted_wrt_rev)
      then have "sorted_wrt (\<lambda>u v. key u \<le> key v) (rev (a # b # take ?k rest))"
        by (rule sorted_wrt_mono_rel [rotated]) simp
      moreover have "fst (countAndMakeRun lt xs) = rev (a # b # take ?k rest)"
        using True unfolding x by (simp add: countAndMakeRun_def Let_def)
      ultimately show ?thesis by simp
    next
      case False
      let ?k = "extendRun lt False b rest"
      have s: "sorted_wrt (\<lambda>u v. key u \<le> key v) (b # take ?k rest)"
        using c by (rule extendRun_ascending)
      from False ab have "key a \<le> key b" by simp
      with s have "sorted_wrt (\<lambda>u v. key u \<le> key v) (a # b # take ?k rest)" by auto
      moreover have "fst (countAndMakeRun lt xs) = a # b # take ?k rest"
        using False unfolding x by (simp add: countAndMakeRun_def Let_def)
      ultimately show ?thesis by simp
    qed
  qed
qed

lemma binarySearch_place:
  fixes key :: "'a \<Rightarrow> int"
  assumes "sorted_wrt (\<lambda>a b. key a \<le> key b) w"
    and "\<forall>b\<in>set w. lt p b \<longleftrightarrow> key p < key b"
    and "left \<le> right" "right \<le> length w"
    and "\<forall>i<left. key (w ! i) \<le> key p"
    and "\<forall>i. right \<le> i \<and> i < length w \<longrightarrow> key p < key (w ! i)"
  shows "binarySearch lt p w left right \<le> length w
    \<and> (\<forall>i<binarySearch lt p w left right. key (w ! i) \<le> key p)
    \<and> (\<forall>i. binarySearch lt p w left right \<le> i \<and> i < length w \<longrightarrow> key p < key (w ! i))"
  using assms
proof (induction lt p w left right rule: binarySearch.induct)
  case (1 lt pivot work left right)
  let ?mid = "left + (right - left) div 2"
  show ?case
  proof (cases "left < right")
    case False
    with "1.prems" have "binarySearch lt pivot work left right = left" "left = right"
      by (simp_all add: binarySearch.simps)
    with "1.prems" show ?thesis by simp
  next
    case True
    then have mid: "left \<le> ?mid" "?mid < right" by auto
    with "1.prems" have inw: "?mid < length work" by simp
    then have mem: "work ! ?mid \<in> set work" by simp
    show ?thesis
    proof (cases "lt pivot (work ! ?mid)")
      case L: True
      with "1.prems"(2) mem have k: "key pivot < key (work ! ?mid)" by blast
      have up: "\<forall>i. ?mid \<le> i \<and> i < length work \<longrightarrow> key pivot < key (work ! i)"
      proof (intro allI impI)
        fix i assume i: "?mid \<le> i \<and> i < length work"
        have "key (work ! ?mid) \<le> key (work ! i)"
        proof (cases "?mid = i")
          case True
          then show ?thesis by simp
        next
          case False
          with i have "?mid < i" by simp
          with i "1.prems"(1) show ?thesis by (simp add: sorted_wrt_iff_nth_less)
        qed
        with k show "key pivot < key (work ! i)" by simp
      qed
      have "binarySearch lt pivot work left right = binarySearch lt pivot work left ?mid"
        using True L by (subst binarySearch.simps) simp
      moreover have "binarySearch lt pivot work left ?mid \<le> length work
        \<and> (\<forall>i<binarySearch lt pivot work left ?mid. key (work ! i) \<le> key pivot)
        \<and> (\<forall>i. binarySearch lt pivot work left ?mid \<le> i \<and> i < length work
              \<longrightarrow> key pivot < key (work ! i))"
        using True L mid inw "1.prems"(1,2,5) up by (intro "1.IH"(1)) simp_all
      ultimately show ?thesis by simp
    next
      case G: False
      with "1.prems"(2) mem have k: "key (work ! ?mid) \<le> key pivot" by auto
      have low: "\<forall>i<?mid + 1. key (work ! i) \<le> key pivot"
      proof (intro allI impI)
        fix i assume i: "i < ?mid + 1"
        have "key (work ! i) \<le> key (work ! ?mid)"
        proof (cases "i = ?mid")
          case True
          then show ?thesis by simp
        next
          case False
          with i have "i < ?mid" by simp
          with inw "1.prems"(1) show ?thesis by (simp add: sorted_wrt_iff_nth_less)
        qed
        with k show "key (work ! i) \<le> key pivot" by simp
      qed
      have "binarySearch lt pivot work left right = binarySearch lt pivot work (?mid + 1) right"
        using True G by (subst binarySearch.simps) simp
      moreover have "binarySearch lt pivot work (?mid + 1) right \<le> length work
        \<and> (\<forall>i<binarySearch lt pivot work (?mid + 1) right. key (work ! i) \<le> key pivot)
        \<and> (\<forall>i. binarySearch lt pivot work (?mid + 1) right \<le> i \<and> i < length work
              \<longrightarrow> key pivot < key (work ! i))"
        using True G mid "1.prems"(1,2,4,6) low by (intro "1.IH"(2)) simp_all
      ultimately show ?thesis by simp
    qed
  qed
qed

lemma insert_at_sorted:
  fixes key :: "'a \<Rightarrow> int"
  assumes "sorted_wrt (\<lambda>a b. key a \<le> key b) w" "k \<le> length w"
    and "\<forall>i<k. key (w ! i) \<le> key p"
    and "\<forall>i. k \<le> i \<and> i < length w \<longrightarrow> key p < key (w ! i)"
  shows "sorted_wrt (\<lambda>a b. key a \<le> key b) (take k w @ p # drop k w)"
proof -
  have t: "sorted_wrt (\<lambda>a b. key a \<le> key b) (take k w)"
    and d: "sorted_wrt (\<lambda>a b. key a \<le> key b) (drop k w)"
    using assms(1) by (metis append_take_drop_id sorted_wrt_append)+
  have cross: "\<forall>x\<in>set (take k w). \<forall>y\<in>set (drop k w). key x \<le> key y"
    using assms(1) by (metis append_take_drop_id sorted_wrt_append)
  have lo: "\<forall>x\<in>set (take k w). key x \<le> key p"
  proof
    fix x assume "x \<in> set (take k w)"
    then obtain i where "i < length (take k w)" "take k w ! i = x"
      by (auto simp: in_set_conv_nth)
    with assms(2,3) show "key x \<le> key p" by auto
  qed
  have hi: "\<forall>y\<in>set (drop k w). key p \<le> key y"
  proof
    fix y assume "y \<in> set (drop k w)"
    then obtain i where i: "i < length (drop k w)" "drop k w ! i = y"
      by (auto simp: in_set_conv_nth)
    then have "k + i < length w" "w ! (k + i) = y" using assms(2) by auto
    with assms(4) [rule_format, of "k + i"] show "key p \<le> key y" by auto
  qed
  from t d cross lo hi show ?thesis by (auto simp: sorted_wrt_append)
qed

lemma binaryInsertionSort_sorted:
  fixes key :: "'a \<Rightarrow> int"
  assumes "sorted_wrt (\<lambda>a b. key a \<le> key b) w"
    and "\<forall>a\<in>set w \<union> set rest. \<forall>b\<in>set w \<union> set rest. lt a b \<longleftrightarrow> key a < key b"
  shows "sorted_wrt (\<lambda>a b. key a \<le> key b) (binaryInsertionSort lt w rest)"
  using assms
proof (induction rest arbitrary: w)
  case Nil
  then show ?case by simp
next
  case (Cons p rest)
  let ?k = "binarySearch lt p w 0 (length w)"
  have c: "\<forall>b\<in>set w. lt p b \<longleftrightarrow> key p < key b" using Cons.prems(2) by auto
  have place: "?k \<le> length w \<and> (\<forall>i<?k. key (w ! i) \<le> key p)
      \<and> (\<forall>i. ?k \<le> i \<and> i < length w \<longrightarrow> key p < key (w ! i))"
    using Cons.prems(1) c
    by (intro binarySearch_place [where key = key and w = w and lt = lt and p = p
          and left = 0 and right = "length w"]) simp_all
  then have s: "sorted_wrt (\<lambda>a b. key a \<le> key b) (take ?k w @ p # drop ?k w)"
    using Cons.prems(1) by (intro insert_at_sorted) simp_all
  have "sorted_wrt (\<lambda>a b. key a \<le> key b) (binaryInsertionSort lt (take ?k w @ p # drop ?k w) rest)"
  proof (rule Cons.IH [OF s])
    show "\<forall>a\<in>set (take ?k w @ p # drop ?k w) \<union> set rest.
        \<forall>b\<in>set (take ?k w @ p # drop ?k w) \<union> set rest. lt a b \<longleftrightarrow> key a < key b"
      unfolding set_insert_at using Cons.prems(2) by auto
  qed
  then show ?case by simp
qed

lemma arraySort_sorted:
  fixes key :: "'a \<Rightarrow> int"
  assumes "\<forall>a\<in>set xs. \<forall>b\<in>set xs. lt a b \<longleftrightarrow> key a < key b"
  shows "sorted_wrt (\<lambda>a b. key a \<le> key b) (arraySort lt xs)"
proof (cases "length xs < 2")
  case True
  then have "xs = [] \<or> (\<exists>x. xs = [x])"
    by (cases xs) (auto simp: length_Suc_conv)
  with True show ?thesis by (auto simp: arraySort_def)
next
  case False
  have "sorted_wrt (\<lambda>a b. key a \<le> key b)
      (binaryInsertionSort lt (fst (countAndMakeRun lt xs)) (snd (countAndMakeRun lt xs)))"
  proof (rule binaryInsertionSort_sorted)
    show "sorted_wrt (\<lambda>a b. key a \<le> key b) (fst (countAndMakeRun lt xs))"
      using assms by (rule countAndMakeRun_sorted)
    show "\<forall>a\<in>set (fst (countAndMakeRun lt xs)) \<union> set (snd (countAndMakeRun lt xs)).
        \<forall>b\<in>set (fst (countAndMakeRun lt xs)) \<union> set (snd (countAndMakeRun lt xs)).
          lt a b \<longleftrightarrow> key a < key b"
      unfolding countAndMakeRun_parts using assms .
  qed
  with False show ?thesis by (simp add: arraySort_def)
qed


section \<open>The rows of the grid\<close>

lemma roundToDouble_exact: "\<bar>n\<bar> \<le> 9007199254740992 \<Longrightarrow> roundToDouble n = Fin n"
  by (simp add: roundToDouble_def)

lemma minutesOf_exact:
  assumes "hourMinute a = (Some h, Some m)" "\<bar>h\<bar> \<le> 10000000000000" "\<bar>m\<bar> \<le> 10000000000000"
  shows "minutesOf a = Fin (h * 60 + m)"
proof -
  have "roundToDouble h = Fin h" "roundToDouble m = Fin m" "roundToDouble (h * 60) = Fin (h * 60)"
    "roundToDouble (h * 60 + m) = Fin (h * 60 + m)"
    using assms(2,3) by (simp_all add: roundToDouble_exact)
  with assms(1) show ?thesis by (simp add: minutesOf_def toNumber_def)
qed

lemma timeLt_exact:
  assumes "hourMinute a = (Some h, Some m)" "\<bar>h\<bar> \<le> 10000000000000" "\<bar>m\<bar> \<le> 10000000000000"
    and "hourMinute b = (Some h', Some m')" "\<bar>h'\<bar> \<le> 10000000000000" "\<bar>m'\<bar> \<le> 10000000000000"
  shows "timeLt a b \<longleftrightarrow> h * 60 + m < h' * 60 + m'"
proof -
  have "roundToDouble (h * 60 + m + - (h' * 60 + m')) = Fin (h * 60 + m + - (h' * 60 + m'))"
    using assms(2,3,5,6) by (intro roundToDouble_exact) linarith
  then show ?thesis
    using minutesOf_exact [OF assms(1-3)] minutesOf_exact [OF assms(4-6)]
    by (simp add: timeLt_def timeCompare_def numSub_def isNegative_def) linarith
qed

lemma times_sorted_set: "set (times_sorted daily) = ev_start ` set daily"
  by (simp add: times_sorted_def set_arraySort set_uniq)

lemma times_sorted_distinct: "distinct (times_sorted daily)"
  by (simp add: times_sorted_def distinct_arraySort distinct_uniq)

lemma times_sorted_ordered:
  assumes "\<forall>ev\<in>set daily. \<exists>h m. hourMinute (ev_start ev) = (Some h, Some m)
      \<and> \<bar>h\<bar> \<le> 10000000000000 \<and> \<bar>m\<bar> \<le> 10000000000000"
  shows "sorted_wrt
     (\<lambda>a b. \<exists>h m h' m'. hourMinute a = (Some h, Some m) \<and> hourMinute b = (Some h', Some m')
        \<and> h * 60 + m \<le> h' * 60 + m')
     (times_sorted daily)"
proof -
  define key where
    "key = (\<lambda>a. case hourMinute a of (Some h, Some m) \<Rightarrow> h * 60 + m | _ \<Rightarrow> (0::int))"
  have starts: "\<forall>a\<in>set (uniq (map ev_start daily)). \<exists>h m. hourMinute a = (Some h, Some m)
      \<and> \<bar>h\<bar> \<le> 10000000000000 \<and> \<bar>m\<bar> \<le> 10000000000000"
    using assms by (auto simp: set_uniq)
  have "sorted_wrt (\<lambda>a b. key a \<le> key b) (arraySort timeLt (uniq (map ev_start daily)))"
  proof (rule arraySort_sorted, intro ballI)
    fix a b
    assume "a \<in> set (uniq (map ev_start daily))" "b \<in> set (uniq (map ev_start daily))"
    with starts obtain h m h' m' where
      a: "hourMinute a = (Some h, Some m)" "\<bar>h\<bar> \<le> 10000000000000" "\<bar>m\<bar> \<le> 10000000000000"
      and b: "hourMinute b = (Some h', Some m')" "\<bar>h'\<bar> \<le> 10000000000000"
        "\<bar>m'\<bar> \<le> 10000000000000"
      by blast
    from timeLt_exact [OF a b] a(1) b(1) show "timeLt a b \<longleftrightarrow> key a < key b"
      by (simp add: key_def)
  qed
  then have k: "sorted_wrt (\<lambda>a b. key a \<le> key b) (times_sorted daily)"
    by (simp add: times_sorted_def)
  have "sorted_wrt
     (\<lambda>a b. (a \<in> set (times_sorted daily) \<and> b \<in> set (times_sorted daily)) \<and> key a \<le> key b)
     (times_sorted daily)"
    using k by (simp add: sorted_wrt_iff_nth_less)
  then show ?thesis
  proof (rule sorted_wrt_mono_rel [rotated])
    fix a b
    assume "a \<in> set (times_sorted daily)" "b \<in> set (times_sorted daily)"
      and "(a \<in> set (times_sorted daily) \<and> b \<in> set (times_sorted daily)) \<and> key a \<le> key b"
    then have le: "key a \<le> key b" and "a \<in> ev_start ` set daily" "b \<in> ev_start ` set daily"
      by (simp_all add: times_sorted_set)
    with assms obtain h m h' m' where
      "hourMinute a = (Some h, Some m)" "hourMinute b = (Some h', Some m')"
      by blast
    with le show "\<exists>h m h' m'. hourMinute a = (Some h, Some m) \<and> hourMinute b = (Some h', Some m')
        \<and> h * 60 + m \<le> h' * 60 + m'"
      by (simp add: key_def)
  qed
qed

lemma bodyRows_length: "length (bodyRows daily) = length (times_sorted daily)"
  by (simp add: bodyRows_def)

lemma bodyRows_nth:
  "i < length (times_sorted daily) \<Longrightarrow>
   bodyRows daily ! i = rowHtml daily (rooms_sorted daily) i (times_sorted daily ! i)"
  by (simp add: bodyRows_def nth_enumerate_eq)

text \<open>
  Claim C9, as the code has it. When every start value of the filtered entries reads as
  hours and minutes, two whole numbers of at most 10^13 in size before and after the
  first colon, the grid's rows are exactly the distinct start values, in non-decreasing
  order of hours times 60 plus minutes, and row \<open>i\<close> (counted from 0) opens with the
  label \<open>i + 1\<close> followed by its start value; 9:00 comes before 10:00 and 9:15 before
  9:30.
\<close>

theorem grid_rows_by_minutes:
  assumes "daily = dailyEvents events building date"
    and "daily \<noteq> []"
    and "\<forall>ev\<in>set daily. \<exists>h m. hourMinute (ev_start ev) = (Some h, Some m)
      \<and> \<bar>h\<bar> \<le> 10000000000000 \<and> \<bar>m\<bar> \<le> 10000000000000"
  shows "set (times_sorted daily) = ev_start ` set daily
    \<and> distinct (times_sorted daily)
    \<and> (\<forall>i j. i < j \<and> j < length (times_sorted daily) \<longrightarrow>
         (\<exists>h m h' m'. hourMinute (times_sorted daily ! i) = (Some h, Some m)
              \<and> hourMinute (times_sorted daily ! j) = (Some h', Some m')
              \<and> h * 60 + m \<le> h' * 60 + m'))
    \<and> length (bodyRows daily) = length (times_sorted daily)
    \<and> (\<forall>i < length (times_sorted daily). \<exists>cells.
         bodyRows daily ! i =
           asc ''<tr><td>'' @ natToString (i + 1) @ asc ''</td><td>'' @ times_sorted daily ! i
           @ asc ''</td>'' @ cells @ asc ''</tr>'')
    \<and> times_sorted [sampleEntry b d (asc ''10:00'') r1 s1 g1, sampleEntry b d (asc ''9:00'') r2 s2 g2]
        = [asc ''9:00'', asc ''10:00'']
    \<and> times_sorted [sampleEntry b d (asc ''9:30'') r1 s1 g1, sampleEntry b d (asc ''9:15'') r2 s2 g2]
        = [asc ''9:15'', asc ''9:30'']"
proof -
  let ?ts = "times_sorted daily"
  have pairs: "\<forall>i j. i < j \<and> j < length ?ts \<longrightarrow>
         (\<exists>h m h' m'. hourMinute (?ts ! i) = (Some h, Some m)
              \<and> hourMinute (?ts ! j) = (Some h', Some m') \<and> h * 60 + m \<le> h' * 60 + m')"
    using times_sorted_ordered [OF assms(3)] by (simp add: sorted_wrt_iff_nth_less)
  have rows: "\<forall>i < length ?ts. \<exists>cells. bodyRows daily ! i =
           asc ''<tr><td>'' @ natToString (i + 1) @ asc ''</td><td>'' @ ?ts ! i
           @ asc ''</td>'' @ cells @ asc ''</tr>''"
    by (simp add: bodyRows_nth rowHtml_def)
  have ex1: "times_sorted [sampleEntry b d (asc ''10:00'') r1 s1 g1, sampleEntry b d (asc ''9:00'') r2 s2 g2]
        = [asc ''9:00'', asc ''10:00'']"
    by (simp add: times_sorted_def sampleEntry_def arraySort_def countAndMakeRun_def asc_def
        time_eval number_eval)
  have ex2: "times_sorted [sampleEntry b d (asc ''9:30'') r1 s1 g1, sampleEntry b d (asc ''9:15'') r2 s2 g2]
        = [asc ''9:15'', asc ''9:30'']"
    by (simp add: times_sorted_def sampleEntry_def arraySort_def countAndMakeRun_def asc_def
        time_eval number_eval)
  show ?thesis
    using times_sorted_set times_sorted_distinct pairs bodyRows_length rows ex1 ex2 by blast
qed

theorem grid_rows_by_minutes_witness:
  "dailyEvents specDay (asc ''A'') (asc ''2024-09-01'') \<noteq> []
   \<and> map (\<lambda>ev. hourMinute (ev_start ev)) (dailyEvents specDay (asc ''A'') (asc ''2024-09-01''))
       = [(Some 10, Some 45), (Some 9, Some 0)]
   \<and> times_sorted (dailyEvents specDay (asc ''A'') (asc ''2024-09-01''))
       = [asc ''09:00'', asc ''10:45'']
   \<and> (\<exists>cells. bodyRows (dailyEvents specDay (asc ''A'') (asc ''2024-09-01'')) ! 1
         = asc ''<tr><td>2</td><td>10:45</td>'' @ cells @ asc ''</tr>'')"
proof -
  let ?d = "dailyEvents specDay (asc ''A'') (asc ''2024-09-01'')"
  have h1: "?d \<noteq> []"
    by (simp add: specDay_def grid_eval string_eval)
  have hm: "map (\<lambda>ev. hourMinute (ev_start ev)) ?d = [(Some 10, Some 45), (Some 9, Some 0)]"
    by (simp add: specDay_def dailyEvents_def sampleEntry_def asc_def hourMinute_def number_eval)
  have h2: "\<forall>ev\<in>set ?d. \<exists>h m. hourMinute (ev_start ev) = (Some h, Some m)
      \<and> \<bar>h\<bar> \<le> 10000000000000 \<and> \<bar>m\<bar> \<le> 10000000000000"
  proof
    fix ev assume "ev \<in> set ?d"
    then have "hourMinute (ev_start ev) \<in> set (map (\<lambda>ev. hourMinute (ev_start ev)) ?d)"
      by simp
    then have "hourMinute (ev_start ev) = (Some 10, Some 45)
        \<or> hourMinute (ev_start ev) = (Some 9, Some 0)"
      unfolding hm by simp
    then show "\<exists>h m. hourMinute (ev_start ev) = (Some h, Some m)
      \<and> \<bar>h\<bar> \<le> 10000000000000 \<and> \<bar>m\<bar> \<le> 10000000000000"
      by auto
  qed
  have ts: "times_sorted ?d = [asc ''09:00'', asc ''10:45'']"
    by (simp add: specDay_def grid_eval string_eval time_eval number_eval)
  have rows: "\<forall>i < length (times_sorted ?d). \<exists>cells. bodyRows ?d ! i =
           asc ''<tr><td>'' @ natToString (i + 1) @ asc ''</td><td>'' @ times_sorted ?d ! i
           @ asc ''</td>'' @ cells @ asc ''</tr>''"
    using grid_rows_by_minutes [OF refl h1 h2] by blast
  have "(1::nat) < length (times_sorted ?d)" by (simp add: ts)
  with rows have "\<exists>cells. bodyRows ?d ! 1 =
           asc ''<tr><td>'' @ natToString (1 + 1) @ asc ''</td><td>'' @ times_sorted ?d ! 1
           @ asc ''</td>'' @ cells @ asc ''</tr>''"
    by blast
  then have "\<exists>cells. bodyRows ?d ! 1 = asc ''<tr><td>2</td><td>10:45</td>'' @ cells @ asc ''</tr>''"
    unfolding ts by (simp add: asc_def natToString.simps)
  with h1 hm ts show ?thesis by simp
qed

text \<open>
  In \<open>blankStartDay\<close> the second entry has the empty start of a blank cell. The
  comparator's result for it is NaN, and the rows come out with 10:00, which is 600
  minutes, before 9:00, which is 540.
\<close>

theorem blank_start_rows_counterexample:
  "dailyEvents blankStartDay (asc ''A'') (asc ''2024-09-01'') \<noteq> []
   \<and> times_sorted (dailyEvents blankStartDay (asc ''A'') (asc ''2024-09-01''))
       = [asc ''10:00'', [], asc ''9:00'']
   \<and> hourMinute (asc ''10:00'') = (Some 10, Some 0)
   \<and> hourMinute (asc ''9:00'') = (Some 9, Some 0)
   \<and> timeCompare [] (asc ''10:00'') = NaN
   \<and> timeCompare (asc ''9:00'') [] = NaN"
  by (simp add: blankStartDay_def grid_eval string_eval time_eval number_eval)

section \<open>Escaping in the grid\<close>

lemma set_replaceAll:
  "set (replaceAll c r s) = (set s - {c}) \<union> (if c \<in> set s then set r else {})"
  by (induction s) (auto simp: replaceAll_def)

lemma escapeHtml_no_markup:
  "c \<in> set (escapeHtml s) \<Longrightarrow> c \<noteq> 60 \<and> c \<noteq> 62 \<and> c \<noteq> 34 \<and> c \<noteq> 39"
  by (auto simp: escapeHtml_def set_replaceAll asc_def split: if_splits)

lemma replaceAll_absent: "c \<notin> set s \<Longrightarrow> replaceAll c r s = s"
  by (induction s) (auto simp: replaceAll_def)

lemma escapeHtml_plain:
  assumes "38 \<notin> set s" "60 \<notin> set s" "62 \<notin> set s" "34 \<notin> set s" "39 \<notin> set s"
  shows "escapeHtml s = s"
  using assms by (simp add: escapeHtml_def replaceAll_absent)

text \<open>
  Claim C1. For the one-entry list \<open>markupDay\<close> the grid holds the room \<open><b>\<close> and the
  start \<open>9:00<i>\<close> as they are, between the tags of their cells; the discipline
  \<open><script>\<close> is escaped and does not occur as it is.
\<close>

theorem grid_room_and_start_unescaped:
  "strIncludes (tableHtml (dailyEvents markupDay (asc ''A'') (asc ''2024-09-01'')))
     (asc ''<th><b></th>'')
   \<and> strIncludes (tableHtml (dailyEvents markupDay (asc ''A'') (asc ''2024-09-01'')))
     (asc ''<td>9:00<i></td>'')
   \<and> strIncludes (tableHtml (dailyEvents markupDay (asc ''A'') (asc ''2024-09-01'')))
     (asc ''<div class=\"subject\">&lt;script&gt;</div>'')
   \<and> \<not> strIncludes (tableHtml (dailyEvents markupDay (asc ''A'') (asc ''2024-09-01'')))
     (asc ''<script>'')"
  by (simp add: markupDay_def grid_eval string_eval enumerate_eq_zip)

section \<open>A corrupt store\<close>

lemma initSchedule_corrupt_clears:
  "slot pg = Some stored \<Longrightarrow> stored \<noteq> [] \<Longrightarrow> jsonParse stored = Malformed \<Longrightarrow>
   initSchedule jsonParse pg = (showEmpty uploadPrompt (pg\<lparr>slot := None\<rparr>), None)"
  by (simp add: initSchedule_def)

lemma initSchedule_empty_text_kept:
  "slot pg = Some [] \<Longrightarrow> slot (fst (initSchedule jsonParse pg)) = Some []"
  by (simp add: initSchedule_def showEmpty_def)

text \<open>
  Claim C3. When the slot holds a non-empty text that \<open>JSON.parse\<close> rejects,
  \<open>renderSchedule\<close> throws SyntaxError and leaves the page, the slot included, as it was.
\<close>

theorem renderSchedule_corrupt_throws:
  "slot pg = Some stored \<Longrightarrow> stored \<noteq> [] \<Longrightarrow> jsonParse stored = Malformed \<Longrightarrow>
   renderSchedule jsonParse pg = (pg, Some SyntaxError)"
  by (simp add: renderSchedule_def)

theorem renderSchedule_corrupt_throws_witness:
  "slot (blankPage\<lparr>slot := Some (asc ''{'')\<rparr>) = Some (asc ''{'')
   \<and> asc ''{'' \<noteq> []
   \<and> parseTwoTexts (asc ''{'') = Malformed
   \<and> renderSchedule parseTwoTexts (blankPage\<lparr>slot := Some (asc ''{'')\<rparr>)
       = (blankPage\<lparr>slot := Some (asc ''{'')\<rparr>, Some SyntaxError)"
proof -
  have h1: "slot (blankPage\<lparr>slot := Some (asc ''{'')\<rparr>) = Some (asc ''{'')" by simp
  have h2: "asc ''{'' \<noteq> []" by (simp add: asc_def)
  have h3: "parseTwoTexts (asc ''{'') = Malformed" by (simp add: parseTwoTexts_def asc_def)
  from renderSchedule_corrupt_throws [of "blankPage\<lparr>slot := Some (asc ''{'')\<rparr>" "asc ''{''" parseTwoTexts]
    h1 h2 h3 show ?thesis by blast
qed

section \<open>The header map\<close>

lemma headerMap_snoc:
  "headerMap (xs @ [c]) = headerStep (headerMap xs) (length xs, c)"
  by (simp add: headerMap_def enumerate_append_eq)

lemma headerStep_apply:
  "headerStep m (i, c) L =
     (if (\<exists>s. c = Str s \<and> trim s = L \<and> L \<noteq> []) then Some i else m L)"
  by (auto simp: headerStep_def split: cell.splits)

lemma last_index_snoc:
  "(i < length (xs @ [c]) \<and> Q ((xs @ [c]) ! i)
     \<and> (\<forall>j. i < j \<and> j < length (xs @ [c]) \<longrightarrow> \<not> Q ((xs @ [c]) ! j)))
   \<longleftrightarrow> (if Q c then i = length xs
        else i < length xs \<and> Q (xs ! i) \<and> (\<forall>j. i < j \<and> j < length xs \<longrightarrow> \<not> Q (xs ! j)))"
proof (cases "Q c")
  case True
  show ?thesis
  proof (cases "i = length xs")
    case True
    with \<open>Q c\<close> show ?thesis by auto
  next
    case False
    have "\<not> (i < length (xs @ [c]) \<and> Q ((xs @ [c]) ! i)
     \<and> (\<forall>j. i < j \<and> j < length (xs @ [c]) \<longrightarrow> \<not> Q ((xs @ [c]) ! j)))"
    proof
      assume a: "i < length (xs @ [c]) \<and> Q ((xs @ [c]) ! i)
        \<and> (\<forall>j. i < j \<and> j < length (xs @ [c]) \<longrightarrow> \<not> Q ((xs @ [c]) ! j))"
      with False have il: "i < length xs" by simp
      from a have "\<forall>j. i < j \<and> j < length (xs @ [c]) \<longrightarrow> \<not> Q ((xs @ [c]) ! j)"
        by blast
      from this [rule_format, of "length xs"] il have "\<not> Q ((xs @ [c]) ! length xs)" by simp
      with \<open>Q c\<close> show False by simp
    qed
    with False \<open>Q c\<close> show ?thesis by simp
  qed
next
  case False
  have "i < length (xs @ [c]) \<and> Q ((xs @ [c]) ! i) \<longleftrightarrow> i < length xs \<and> Q (xs ! i)"
    using False by (cases "i = length xs") (auto simp: nth_append)
  moreover have "i < length xs \<Longrightarrow> (\<forall>j. i < j \<and> j < length (xs @ [c]) \<longrightarrow> \<not> Q ((xs @ [c]) ! j))
     \<longleftrightarrow> (\<forall>j. i < j \<and> j < length xs \<longrightarrow> \<not> Q (xs ! j))"
  proof
    assume h: "\<forall>j. i < j \<and> j < length (xs @ [c]) \<longrightarrow> \<not> Q ((xs @ [c]) ! j)"
    show "\<forall>j. i < j \<and> j < length xs \<longrightarrow> \<not> Q (xs ! j)"
    proof (intro allI impI)
      fix j assume "i < j \<and> j < length xs"
      with h [rule_format, of j] show "\<not> Q (xs ! j)" by (simp add: nth_append)
    qed
  next
    assume h: "\<forall>j. i < j \<and> j < length xs \<longrightarrow> \<not> Q (xs ! j)"
    show "\<forall>j. i < j \<and> j < length (xs @ [c]) \<longrightarrow> \<not> Q ((xs @ [c]) ! j)"
    proof (intro allI impI)
      fix j assume "i < j \<and> j < length (xs @ [c])"
      with h [rule_format, of j] False show "\<not> Q ((xs @ [c]) ! j)"
        by (cases "j = length xs") (simp_all add: nth_append)
    qed
  qed
  ultimately show ?thesis using False by auto
qed

text \<open>
  Claim C2, as the code has it. The header map gives a label the index of the last
  string cell of the header row whose trimmed text is that label (and nothing for
  the empty label): a later column overwrites an earlier one.
\<close>

theorem headerMap_last_occurrence:
  "headerMap row label = Some i \<longleftrightarrow>
     (label \<noteq> [] \<and> i < length row \<and> (\<exists>s. row ! i = Str s \<and> trim s = label)
      \<and> (\<forall>j. i < j \<and> j < length row \<longrightarrow> \<not> (\<exists>s. row ! j = Str s \<and> trim s = label)))"
proof -
  define Q where "Q = (\<lambda>c. \<exists>s. c = Str s \<and> trim s = label)"
  have "headerMap row label = Some i \<longleftrightarrow>
     (label \<noteq> [] \<and> i < length row \<and> Q (row ! i)
      \<and> (\<forall>j. i < j \<and> j < length row \<longrightarrow> \<not> Q (row ! j)))"
  proof (induction row rule: rev_induct)
    case Nil
    then show ?case by (simp add: headerMap_def)
  next
    case (snoc c row)
    have step: "headerMap (row @ [c]) label =
        (if Q c \<and> label \<noteq> [] then Some (length row) else headerMap row label)"
      by (auto simp: Q_def headerMap_snoc headerStep_apply)
    note L = last_index_snoc [of i row c Q]
    show ?case
    proof (cases "Q c \<and> label \<noteq> []")
      case True
      with step have "headerMap (row @ [c]) label = Some i \<longleftrightarrow> i = length row" by auto
      with True L show ?thesis by presburger
    next
      case False
      with step have eq: "headerMap (row @ [c]) label = headerMap row label" by simp
      show ?thesis
      proof (cases "label = []")
        case True
        with eq snoc.IH show ?thesis by simp
      next
        case F: False
        with False have "\<not> Q c" by simp
        with L have "(i < length (row @ [c]) \<and> Q ((row @ [c]) ! i)
           \<and> (\<forall>j. i < j \<and> j < length (row @ [c]) \<longrightarrow> \<not> Q ((row @ [c]) ! j)))
          \<longleftrightarrow> (i < length row \<and> Q (row ! i) \<and> (\<forall>j. i < j \<and> j < length row \<longrightarrow> \<not> Q (row ! j)))"
          by presburger
        with eq snoc.IH F show ?thesis by presburger
      qed
    qed
  qed
  then show ?thesis by (simp add: Q_def)
qed

theorem headerMap_last_occurrence_witness:
  "headerMap repeatedHeader labelDate = Some 2"
  using headerMap_last_occurrence [of repeatedHeader labelDate 2]
  by (simp add: repeatedHeader_def labelDate_def labelStart_def trim_def isWhiteSpace_def
      nth_Cons')

text \<open>
  The header row Data, Vremya nachala, Data has the date label first at index 0, and the
  map gives it index 2.
\<close>

theorem headerMap_first_occurrence_counterexample:
  "repeatedHeader ! 0 = Str labelDate
   \<and> trim labelDate = labelDate
   \<and> headerMap repeatedHeader labelDate = Some 2
   \<and> headerMap repeatedHeader labelDate \<noteq> Some 0"
  by (simp add: headerMap_def headerStep_def trim_def isWhiteSpace_def labelDate_def
      labelStart_def repeatedHeader_def enumerate_eq_zip)

section \<open>The fetch listener and the cache\<close>

lemma cachesOpen_lookup: "cacheLookup (cachesOpen name cs) n u = cacheLookup cs n u"
  by (cases "map_of cs n")
    (auto simp: cachesOpen_def cacheLookup_def map_add_def split: option.splits)

lemma fetchListener_same_origin_get_writes:
  "cacheLookup
     (snd (fetchListener (\<lambda>u. take 19 u) (asc ''https://app.example'') (\<lambda>r. Some (7::nat))
        (\<lambda>r. True) [] [] getRequest))
     CACHE_NAME (req_url getRequest) = Some 7"
  by (simp add: fetchListener_def getRequest_def cachesOpen_def cachePut_def cacheLookup_def
      asc_def CACHE_NAME_def)

text \<open>
  Claim C10. A request whose method is not GET leaves the cache storage as it was, and
  so does a request whose URL has another origin than the application; if what a cache
  holds for some URL differs after the listener ran, the request was a GET of the
  application's own origin.
\<close>

theorem fetch_cache_writes:
  "(req_method request \<noteq> asc ''GET'' \<longrightarrow>
      snd (fetchListener originOf locationOrigin net storable indexUrl cs request) = cs)
   \<and> (originOf (req_url request) \<noteq> locationOrigin \<longrightarrow>
      snd (fetchListener originOf locationOrigin net storable indexUrl cs request) = cs)
   \<and> (cacheLookup (snd (fetchListener originOf locationOrigin net storable indexUrl cs request)) n u
        \<noteq> cacheLookup cs n u \<longrightarrow>
      req_method request = asc ''GET'' \<and> originOf (req_url request) = locationOrigin)"
  by (auto simp: fetchListener_def cachesOpen_lookup split: option.splits)

theorem fetch_cache_writes_witness:
  "req_method postRequest \<noteq> asc ''GET''
   \<and> snd (fetchListener (\<lambda>u. take 19 u) (asc ''https://app.example'') (\<lambda>r. Some (7::nat))
        (\<lambda>r. True) [] [(CACHE_NAME, Map.empty)] postRequest) = [(CACHE_NAME, Map.empty)]"
proof -
  have h: "req_method postRequest \<noteq> asc ''GET''"
    by (simp add: postRequest_def asc_def)
  with fetch_cache_writes [of postRequest "\<lambda>u. take 19 u" "asc ''https://app.example''"
      "\<lambda>r. Some (7::nat)" "\<lambda>r. True" "[]" "[(CACHE_NAME, Map.empty)]"]
  show ?thesis by blast
qed

section \<open>The calendar\<close>

lemma div_bounds:
  fixes a c :: int
  assumes "0 < c"
  shows "c * (a div c) \<le> a" and "a < c * (a div c) + c"
proof -
  have "a = c * (a div c) + a mod c" by simp
  moreover have "0 \<le> a mod c" "a mod c < c" using assms by simp_all
  ultimately show "c * (a div c) \<le> a" and "a < c * (a div c) + c" by linarith+
qed

lemma div_step:
  fixes a c :: int
  assumes "0 < c"
  shows "(a + 1) div c = a div c + (if (a + 1) mod c = 0 then 1 else 0)"
proof -
  have eq: "a = c * (a div c) + a mod c" by simp
  have r: "0 \<le> a mod c" "a mod c < c" using assms by simp_all
  show ?thesis
  proof (cases "a mod c + 1 = c")
    case True
    from eq have "a + 1 = c * (a div c) + (a mod c + 1)" by linarith
    with True have "a + 1 = c * (a div c) + c" by simp
    then have "a + 1 = c * (a div c + 1) + 0" by (simp add: distrib_left)
    from int_div_pos_eq [OF this _ assms] int_mod_pos_eq [OF this _ assms]
    show ?thesis by simp
  next
    case False
    with r have lt: "a mod c + 1 < c" by simp
    from eq have "a + 1 = c * (a div c) + (a mod c + 1)" by linarith
    from int_div_pos_eq [OF this _ lt] int_mod_pos_eq [OF this _ lt] r
    show ?thesis by simp
  qed
qed

lemma est_lo_aux:
  fixes y D q4 q100 q400 e :: int
  assumes "y - 1969 < 4 * q4 + 4" "100 * q100 \<le> y - 1901" "y - 1601 < 400 * q400 + 400"
    "400 * D < 146097 * e + 146097" "365 * (y - 1970) + q4 - q100 + q400 \<le> D"
  shows "y - 1 \<le> 1970 + e"
proof -
  have "365 * y - 719050 + q4 - q100 + q400 \<le> D" using assms(5) by (simp add: algebra_simps)
  with assms(1-4) show ?thesis by linarith
qed

lemma est_hi_aux:
  fixes y D q4 q100 q400 e :: int
  assumes "4 * q4 \<le> y + 1 - 1969" "y + 1 - 1901 < 100 * q100 + 100" "400 * q400 \<le> y + 1 - 1601"
    "146097 * e \<le> 400 * D" "D < 365 * (y + 1 - 1970) + q4 - q100 + q400"
  shows "1970 + e \<le> y + 1"
proof -
  have "D < 365 * y - 718685 + q4 - q100 + q400" using assms(5) by (simp add: algebra_simps)
  with assms(1-4) show ?thesis by linarith
qed
lemma est_lo: "DayFromYear y \<le> D \<Longrightarrow> y - 1 \<le> 1970 + (400 * D) div 146097"
  unfolding DayFromYear_def
  by (rule est_lo_aux [of y "(y - 1969) div 4" "(y - 1901) div 100" "(y - 1601) div 400" D])
     (simp_all add: div_bounds)

lemma est_hi: "D < DayFromYear (y + 1) \<Longrightarrow> 1970 + (400 * D) div 146097 \<le> y + 1"
  unfolding DayFromYear_def
  by (rule est_hi_aux [of "(y + 1 - 1969) div 4" y "(y + 1 - 1901) div 100" "(y + 1 - 1601) div 400" _ D])
     (simp_all add: div_bounds)

lemma mod_sub_mult: "(a - c * k) mod c = a mod c" for a c k :: int
proof -
  have "a - c * k = a + c * (- k)" by simp
  then show ?thesis by (simp only: mod_mult_self2)
qed

lemma DayFromYear_Suc: "DayFromYear (y + 1) = DayFromYear y + DaysInYear y"
proof -
  have m4: "(y - 1969 + 1) mod 4 = y mod 4"
    using mod_sub_mult [of y 4 492] by simp
  have m100: "(y - 1901 + 1) mod 100 = y mod 100"
    using mod_sub_mult [of y 100 19] by simp
  have m400: "(y - 1601 + 1) mod 400 = y mod 400"
    using mod_sub_mult [of y 400 4] by simp
  have a: "(y + 1 - 1969) div 4 = (y - 1969) div 4 + (if y mod 4 = 0 then 1 else 0)"
    using div_step [of 4 "y - 1969"] m4 by (simp add: algebra_simps)
  have b: "(y + 1 - 1901) div 100 = (y - 1901) div 100 + (if y mod 100 = 0 then 1 else 0)"
    using div_step [of 100 "y - 1901"] m100 by (simp add: algebra_simps)
  have c: "(y + 1 - 1601) div 400 = (y - 1601) div 400 + (if y mod 400 = 0 then 1 else 0)"
    using div_step [of 400 "y - 1601"] m400 by (simp add: algebra_simps)
  have d: "y mod 100 = 0" if "y mod 400 = 0"
  proof -
    from that have "400 dvd y" by (simp add: dvd_eq_mod_eq_0)
    moreover have "(100::int) dvd 400" by simp
    ultimately have "100 dvd y" by (rule dvd_trans [rotated])
    then show ?thesis by (simp add: dvd_eq_mod_eq_0)
  qed
  have e: "y mod 4 = 0" if "y mod 100 = 0"
  proof -
    from that have "100 dvd y" by (simp add: dvd_eq_mod_eq_0)
    moreover have "(4::int) dvd 100" by simp
    ultimately have "4 dvd y" by (rule dvd_trans [rotated])
    then show ?thesis by (simp add: dvd_eq_mod_eq_0)
  qed
  have "365 * (y + 1 - 1970) = 365 * (y - 1970) + (365::int)" by simp
  then show ?thesis
    unfolding DayFromYear_def DaysInYear_def a b c using d e by auto
qed

lemma DaysInYear_pos: "365 \<le> DaysInYear y" "DaysInYear y \<le> 366"
  by (simp_all add: DaysInYear_def)

lemma DayFromYear_mono_nat: "DayFromYear y \<le> DayFromYear (y + int n)"
proof (induction n)
  case 0
  then show ?case by simp
next
  case (Suc n)
  have "DayFromYear (y + int (Suc n)) = DayFromYear (y + int n + 1)" by (simp add: algebra_simps)
  also have "\<dots> = DayFromYear (y + int n) + DaysInYear (y + int n)" by (rule DayFromYear_Suc)
  finally show ?case using Suc DaysInYear_pos(1) [of "y + int n"] by linarith
qed

lemma DayFromYear_mono: "a \<le> b \<Longrightarrow> DayFromYear a \<le> DayFromYear b"
  using DayFromYear_mono_nat [of a "nat (b - a)"] by simp

lemma yearOfDay_eq:
  assumes "DayFromYear y \<le> D" and "D < DayFromYear (y + 1)"
  shows "yearOfDay D = y"
proof -
  define y0 where "y0 = 1970 + (400 * D) div 146097"
  have lo: "y - 1 \<le> y0" unfolding y0_def using assms(1) by (rule est_lo)
  have hi: "y0 \<le> y + 1" unfolding y0_def using assms(2) by (rule est_hi)
  have Y: "yearOfDay D =
      (if D < DayFromYear y0 then y0 - 1 else if DayFromYear (y0 + 1) \<le> D then y0 + 1 else y0)"
    by (simp add: yearOfDay_def y0_def Let_def)
  from lo hi consider "y0 = y - 1" | "y0 = y" | "y0 = y + 1" by linarith
  then show ?thesis
  proof cases
    case 1
    then have "y0 + 1 = y" by simp
    moreover have "DayFromYear y0 \<le> DayFromYear y" using 1 by (intro DayFromYear_mono) simp
    ultimately show ?thesis using Y assms by simp
  next
    case 2
    then show ?thesis using Y assms by simp
  next
    case 3
    then show ?thesis using Y assms by simp
  qed
qed


lemma Day_of_day: "0 \<le> r \<Longrightarrow> r < msPerDay \<Longrightarrow> Day (D * msPerDay + r) = D"
proof -
  assume r: "0 \<le> r" "r < msPerDay"
  have "D * msPerDay + r = msPerDay * D + r" by simp
  from int_div_pos_eq [OF this r] show ?thesis by (simp add: Day_def)
qed

lemma leapDays_cases: "leapDays y = 0 \<or> leapDays y = 1"
  by (simp add: leapDays_def DaysInYear_def)

lemma MakeDay_in_year:
  assumes "1 \<le> m" "m \<le> 12"
  shows "MakeDay y (m - 1) d = DayFromYear y + monthStart (leapDays y) (m - 1) + d - 1"
proof -
  from assms have "(m - 1) div 12 = 0" "(m - 1) mod 12 = m - 1" by simp_all
  then show ?thesis by (simp add: MakeDay_def)
qed

lemma month_cases:
  fixes m :: int
  shows "1 \<le> m \<Longrightarrow> m \<le> 12 \<Longrightarrow>
    m = 1 \<or> m = 2 \<or> m = 3 \<or> m = 4 \<or> m = 5 \<or> m = 6 \<or> m = 7 \<or> m = 8 \<or> m = 9 \<or> m = 10
    \<or> m = 11 \<or> m = 12"
  by arith

lemma day_within_year:
  assumes "1 \<le> m" "m \<le> 12" "1 \<le> d" "d \<le> daysInMonth y m"
  shows "0 \<le> monthStart (leapDays y) (m - 1) + d - 1"
    and "monthStart (leapDays y) (m - 1) + d - 1 < DaysInYear y"
  using assms(3,4) leapDays_cases [of y] month_cases [OF assms(1,2)]
  by (elim disjE; simp add: monthStart_def daysInMonth_def leapDays_def)+

lemma fields_of_local_time:
  assumes "1 \<le> m" "m \<le> 12" "1 \<le> d" "d \<le> daysInMonth y m" "0 \<le> r" "r < msPerDay"
  shows "YearFromTime (MakeDay y (m - 1) d * msPerDay + r) = y"
    and "MonthFromTime (MakeDay y (m - 1) d * msPerDay + r) = m - 1"
    and "DateFromTime (MakeDay y (m - 1) d * msPerDay + r) = d"
proof -
  let ?t = "MakeDay y (m - 1) d * msPerDay + r"
  let ?w = "monthStart (leapDays y) (m - 1) + d - 1"
  have D: "Day ?t = DayFromYear y + ?w"
    using Day_of_day [OF assms(5,6)] MakeDay_in_year [OF assms(1,2)] by simp
  have w: "0 \<le> ?w" "?w < DaysInYear y" using day_within_year [OF assms(1-4)] by simp_all
  have "yearOfDay (DayFromYear y + ?w) = y"
    using w by (intro yearOfDay_eq) (simp_all add: DayFromYear_Suc)
  then show Y: "YearFromTime ?t = y" by (simp add: YearFromTime_def D)
  have W: "DayWithinYear ?t = ?w" by (simp add: DayWithinYear_def Y D)
  show M: "MonthFromTime ?t = m - 1"
    unfolding MonthFromTime_def W Y Let_def
    using assms(3,4) leapDays_cases [of y] month_cases [OF assms(1,2)]
    by (elim disjE; simp add: monthStart_def daysInMonth_def)
  show "DateFromTime ?t = d"
    by (simp add: DateFromTime_def W Y M)
qed


section \<open>Date normalisation\<close>

lemmas calendar_eval = MakeDay_def DayFromYear_def leapDays_def DaysInYear_def monthStart_def
  daysInMonth_def msPerDay_def

lemma isoDate_of_local:
  assumes "1 \<le> m" "m \<le> 12" "1 \<le> d" "d \<le> daysInMonth y m" "0 \<le> r" "r < msPerDay"
    and "t + tza = MakeDay y (m - 1) d * msPerDay + r"
  shows "isoDate tza (Some t) =
     padStart 4 48 (numToString (Some y)) @ asc ''-'' @ padStart 2 48 (numToString (Some m))
     @ asc ''-'' @ padStart 2 48 (numToString (Some d))"
  using fields_of_local_time [OF assms(1-6)] assms(7)
  by (simp add: isoDate_def getFullYear_def getMonth_def getDate_def)

lemma DayFromYear_bounds:
  assumes "\<bar>y\<bar> \<le> 200000"
  shows "- 80000000 \<le> DayFromYear y" and "DayFromYear y \<le> 80000000"
proof -
  have "365 * (y - 1970) = 365 * y - 719050" by simp
  then have D: "DayFromYear y = 365 * y - 719050 + (y - 1969) div 4 - (y - 1901) div 100
      + (y - 1601) div 400"
    by (simp add: DayFromYear_def)
  note b = div_bounds [of 4 "y - 1969"] div_bounds [of 100 "y - 1901"]
    div_bounds [of 400 "y - 1601"]
  show "- 80000000 \<le> DayFromYear y" unfolding D using assms b by linarith
  show "DayFromYear y \<le> 80000000" unfolding D using assms b by linarith
qed

lemma MakeDay_bounds:
  assumes "1 \<le> m" "m \<le> 12" "1 \<le> d" "d \<le> daysInMonth y m" "\<bar>y\<bar> \<le> 200000"
  shows "\<bar>MakeDay y (m - 1) d\<bar> \<le> 80000400"
  using day_within_year [OF assms(1-4)] DayFromYear_bounds [OF assms(5)]
    MakeDay_in_year [OF assms(1,2), of y d] DaysInYear_pos(2) [of y]
  by linarith

lemma local_date_fields:
  assumes "1 \<le> m" "m \<le> 12" "1 \<le> d" "d \<le> daysInMonth y m" "\<not> (0 \<le> y \<and> y \<le> 99)"
    "\<bar>y\<bar> \<le> 200000" "\<bar>tza\<bar> \<le> msPerDay"
  shows "isoDate tza (newDateLocal tza (Some y) (Some (m - 1)) (Some d)) =
     padStart 4 48 (numToString (Some y)) @ asc ''-'' @ padStart 2 48 (numToString (Some m))
     @ asc ''-'' @ padStart 2 48 (numToString (Some d))"
proof -
  let ?t = "MakeDay y (m - 1) d * msPerDay - tza"
  have "\<bar>MakeDay y (m - 1) d\<bar> \<le> 80000400" using assms(1-4,6) by (rule MakeDay_bounds)
  then have "\<bar>?t\<bar> \<le> 8640000000000000" using assms(7) by (simp add: msPerDay_def)
  then have "TimeClip ?t = Some ?t" by (simp add: TimeClip_def)
  moreover have "newDateLocal tza (Some y) (Some (m - 1)) (Some d) = TimeClip ?t"
    using assms(5) by (auto simp: newDateLocal_def)
  ultimately have "newDateLocal tza (Some y) (Some (m - 1)) (Some d) = Some ?t" by simp
  moreover have "isoDate tza (Some ?t) =
     padStart 4 48 (numToString (Some y)) @ asc ''-'' @ padStart 2 48 (numToString (Some m))
     @ asc ''-'' @ padStart 2 48 (numToString (Some d))"
    by (rule isoDate_of_local [OF assms(1-4), of 0]) (simp_all add: msPerDay_def)
  ultimately show ?thesis by simp
qed

lemma three_parts:
  assumes "splitOn (\<lambda>c. c = 46 \<or> c = 47) s = [a, b, c]"
  shows "dateObj P (Str s) =
     newDateLocal (pf_tza P) (parseInt c) (map_option (\<lambda>x. x - 1) (parseInt b)) (parseInt a)"
  using assms by (simp add: dateObj_def)

lemma other_parts:
  assumes "length (splitOn (\<lambda>c. c = 46 \<or> c = 47) s) \<noteq> 3"
  shows "dateObj P (Str s) = Option.bind (dateParse (pf_dateParse P) s) TimeClip"
  using assms by (auto simp: dateObj_def split: list.splits)

lemma split_example:
  "splitOn (\<lambda>c. c = 46 \<or> c = 47) (asc ''01.09.2024'') = [asc ''01'', asc ''09'', asc ''2024'']"
  by (simp add: asc_def)

lemma parse_example:
  "parseInt (asc ''01'') = Some 1" "parseInt (asc ''09'') = Some 9"
  "parseInt (asc ''2024'') = Some 2024"
  by (simp_all add: asc_def parseInt_def parseUnsigned_def number_eval)

lemma short_year_date_fields:
  assumes "1 \<le> m" "m \<le> 12" "1 \<le> d" "d \<le> daysInMonth (1900 + y) m" "0 \<le> y" "y \<le> 99"
    "\<bar>tza\<bar> \<le> msPerDay"
  shows "isoDate tza (newDateLocal tza (Some y) (Some (m - 1)) (Some d)) =
     padStart 4 48 (numToString (Some (1900 + y))) @ asc ''-''
     @ padStart 2 48 (numToString (Some m)) @ asc ''-'' @ padStart 2 48 (numToString (Some d))"
proof -
  have "newDateLocal tza (Some y) (Some (m - 1)) (Some d)
      = newDateLocal tza (Some (1900 + y)) (Some (m - 1)) (Some d)"
    using assms(5,6) by (simp add: newDateLocal_def)
  moreover have "isoDate tza (newDateLocal tza (Some (1900 + y)) (Some (m - 1)) (Some d)) =
     padStart 4 48 (numToString (Some (1900 + y))) @ asc ''-''
     @ padStart 2 48 (numToString (Some m)) @ asc ''-'' @ padStart 2 48 (numToString (Some d))"
    using assms by (intro local_date_fields) simp_all
  ultimately show ?thesis by simp
qed

text \<open>
  Claim C6, as the code has it. A string date cell is split on \<open>.\<close> and \<open>/\<close>. When that
  gives three parts, the result is that of the date which \<open>new Date\<close> makes of what
  \<open>parseInt\<close> reads in the third part as the year, in the second less one as the month
  and in the first as the day: when the three numbers form a calendar date with the
  year outside 0 to 99, it is the year padded to four digits, the month and the day
  padded to two, joined by \<open>-\<close>; a year from 0 to 99 stands for 1900 plus that year.
  When the split does not give three parts, the result is that of the date \<open>Date.parse\<close>
  makes of the whole string. \<open>01.09.2024\<close> gives \<open>2024-09-01\<close>. The zone's offset is at
  most a day either way.
\<close>

theorem string_date_day_month_year:
  "(splitOn (\<lambda>c. c = 46 \<or> c = 47) s = [a, b, c]
    \<longrightarrow> isoDateOfCell P (Str s) =
          isoDate (pf_tza P)
            (newDateLocal (pf_tza P) (parseInt c) (map_option (\<lambda>x. x - 1) (parseInt b))
               (parseInt a)))
   \<and> (splitOn (\<lambda>c. c = 46 \<or> c = 47) s = [a, b, c] \<and> parseInt a = Some d \<and> parseInt b = Some m
      \<and> parseInt c = Some y \<and> 1 \<le> m \<and> m \<le> 12 \<and> 1 \<le> d \<and> d \<le> daysInMonth y m
      \<and> \<not> (0 \<le> y \<and> y \<le> 99) \<and> \<bar>y\<bar> \<le> 200000 \<and> \<bar>pf_tza P\<bar> \<le> msPerDay
    \<longrightarrow> isoDateOfCell P (Str s) =
          padStart 4 48 (numToString (Some y)) @ asc ''-'' @ padStart 2 48 (numToString (Some m))
          @ asc ''-'' @ padStart 2 48 (numToString (Some d)))
   \<and> (splitOn (\<lambda>c. c = 46 \<or> c = 47) s = [a, b, c] \<and> parseInt a = Some d \<and> parseInt b = Some m
      \<and> parseInt c = Some y \<and> 1 \<le> m \<and> m \<le> 12 \<and> 1 \<le> d \<and> d \<le> daysInMonth (1900 + y) m
      \<and> 0 \<le> y \<and> y \<le> 99 \<and> \<bar>pf_tza P\<bar> \<le> msPerDay
    \<longrightarrow> isoDateOfCell P (Str s) =
          padStart 4 48 (numToString (Some (1900 + y))) @ asc ''-''
          @ padStart 2 48 (numToString (Some m)) @ asc ''-'' @ padStart 2 48 (numToString (Some d)))
   \<and> (length (splitOn (\<lambda>c. c = 46 \<or> c = 47) s) \<noteq> 3
    \<longrightarrow> isoDateOfCell P (Str s)
          = isoDate (pf_tza P) (Option.bind (dateParse (pf_dateParse P) s) TimeClip))
   \<and> (\<bar>pf_tza P\<bar> \<le> msPerDay
    \<longrightarrow> isoDateOfCell P (Str (asc ''01.09.2024'')) = asc ''2024-09-01'')"
proof (intro conjI impI)
  assume "splitOn (\<lambda>c. c = 46 \<or> c = 47) s = [a, b, c]"
  then show "isoDateOfCell P (Str s) =
          isoDate (pf_tza P)
            (newDateLocal (pf_tza P) (parseInt c) (map_option (\<lambda>x. x - 1) (parseInt b))
               (parseInt a))"
    by (simp add: isoDateOfCell_def three_parts)
next
  assume h: "splitOn (\<lambda>c. c = 46 \<or> c = 47) s = [a, b, c] \<and> parseInt a = Some d \<and> parseInt b = Some m
      \<and> parseInt c = Some y \<and> 1 \<le> m \<and> m \<le> 12 \<and> 1 \<le> d \<and> d \<le> daysInMonth y m
      \<and> \<not> (0 \<le> y \<and> y \<le> 99) \<and> \<bar>y\<bar> \<le> 200000 \<and> \<bar>pf_tza P\<bar> \<le> msPerDay"
  then have "dateObj P (Str s) = newDateLocal (pf_tza P) (Some y) (Some (m - 1)) (Some d)"
    by (simp add: three_parts)
  moreover from h have "isoDate (pf_tza P) (newDateLocal (pf_tza P) (Some y) (Some (m - 1)) (Some d)) =
     padStart 4 48 (numToString (Some y)) @ asc ''-'' @ padStart 2 48 (numToString (Some m))
     @ asc ''-'' @ padStart 2 48 (numToString (Some d))"
    by (intro local_date_fields) simp_all
  ultimately show "isoDateOfCell P (Str s) =
          padStart 4 48 (numToString (Some y)) @ asc ''-'' @ padStart 2 48 (numToString (Some m))
          @ asc ''-'' @ padStart 2 48 (numToString (Some d))"
    by (simp add: isoDateOfCell_def)
next
  assume h: "splitOn (\<lambda>c. c = 46 \<or> c = 47) s = [a, b, c] \<and> parseInt a = Some d \<and> parseInt b = Some m
      \<and> parseInt c = Some y \<and> 1 \<le> m \<and> m \<le> 12 \<and> 1 \<le> d \<and> d \<le> daysInMonth (1900 + y) m
      \<and> 0 \<le> y \<and> y \<le> 99 \<and> \<bar>pf_tza P\<bar> \<le> msPerDay"
  then have "dateObj P (Str s) = newDateLocal (pf_tza P) (Some y) (Some (m - 1)) (Some d)"
    by (simp add: three_parts)
  moreover from h have "isoDate (pf_tza P) (newDateLocal (pf_tza P) (Some y) (Some (m - 1)) (Some d)) =
     padStart 4 48 (numToString (Some (1900 + y))) @ asc ''-''
     @ padStart 2 48 (numToString (Some m)) @ asc ''-'' @ padStart 2 48 (numToString (Some d))"
    by (intro short_year_date_fields) simp_all
  ultimately show "isoDateOfCell P (Str s) =
          padStart 4 48 (numToString (Some (1900 + y))) @ asc ''-''
          @ padStart 2 48 (numToString (Some m)) @ asc ''-'' @ padStart 2 48 (numToString (Some d))"
    by (simp add: isoDateOfCell_def)
next
  assume "length (splitOn (\<lambda>c. c = 46 \<or> c = 47) s) \<noteq> 3"
  then show "isoDateOfCell P (Str s)
          = isoDate (pf_tza P) (Option.bind (dateParse (pf_dateParse P) s) TimeClip)"
    by (simp add: isoDateOfCell_def other_parts)
next
  assume z: "\<bar>pf_tza P\<bar> \<le> msPerDay"
  have "dateObj P (Str (asc ''01.09.2024'')) =
      newDateLocal (pf_tza P) (Some 2024) (Some (9 - 1)) (Some 1)"
    by (simp add: three_parts [OF split_example] parse_example)
  moreover have "isoDate (pf_tza P) (newDateLocal (pf_tza P) (Some 2024) (Some (9 - 1)) (Some 1)) =
     padStart 4 48 (numToString (Some 2024)) @ asc ''-'' @ padStart 2 48 (numToString (Some 9))
     @ asc ''-'' @ padStart 2 48 (numToString (Some 1))"
    using z by (intro local_date_fields) (simp_all add: daysInMonth_def)
  ultimately show "isoDateOfCell P (Str (asc ''01.09.2024'')) = asc ''2024-09-01''"
    by (simp add: isoDateOfCell_def padStart_def numToString_def natToString.simps asc_def)
qed

theorem string_date_day_month_year_witness:
  "\<bar>pf_tza westPlatform\<bar> \<le> msPerDay
   \<and> isoDateOfCell westPlatform (Str (asc ''01.09.2024'')) = asc ''2024-09-01''"
proof -
  have h: "\<bar>pf_tza westPlatform\<bar> \<le> msPerDay"
    by (simp add: westPlatform_def utcPlatform_def msPerDay_def)
  have "\<bar>pf_tza westPlatform\<bar> \<le> msPerDay
    \<longrightarrow> isoDateOfCell westPlatform (Str (asc ''01.09.2024'')) = asc ''2024-09-01''"
    using string_date_day_month_year [where P = westPlatform] by blast
  with h show ?thesis by blast
qed

text \<open>
  The cell \<open>01.09.24\<close> splits into 01, 09 and 24, which \<open>parseInt\<close> reads as 1, 9
  and 24; the result is \<open>1924-09-01\<close>, not the year 24.
\<close>

theorem two_digit_year_counterexample:
  "splitOn (\<lambda>c. c = 46 \<or> c = 47) (asc ''01.09.24'') = [asc ''01'', asc ''09'', asc ''24'']
   \<and> parseInt (asc ''01'') = Some 1 \<and> parseInt (asc ''09'') = Some 9
   \<and> parseInt (asc ''24'') = Some 24
   \<and> isoDateOfCell utcPlatform (Str (asc ''01.09.24'')) = asc ''1924-09-01''"
proof -
  have sp: "splitOn (\<lambda>c. c = 46 \<or> c = 47) (asc ''01.09.24'')
      = [asc ''01'', asc ''09'', asc ''24'']"
    by (simp add: asc_def)
  have p: "parseInt (asc ''24'') = Some 24"
    by (simp add: asc_def parseInt_def parseUnsigned_def number_eval)
  have "dateObj utcPlatform (Str (asc ''01.09.24'')) =
      newDateLocal 0 (Some 24) (Some (9 - 1)) (Some 1)"
    by (simp add: three_parts [OF sp] parse_example p utcPlatform_def)
  moreover have "isoDate 0 (newDateLocal 0 (Some 24) (Some (9 - 1)) (Some 1)) =
     padStart 4 48 (numToString (Some (1900 + 24))) @ asc ''-''
     @ padStart 2 48 (numToString (Some 9)) @ asc ''-'' @ padStart 2 48 (numToString (Some 1))"
    by (intro short_year_date_fields) (simp_all add: calendar_eval)
  ultimately have "isoDateOfCell utcPlatform (Str (asc ''01.09.24'')) = asc ''1924-09-01''"
    by (simp add: isoDateOfCell_def utcPlatform_def padStart_def numToString_def
        natToString.simps asc_def)
  with sp p parse_example show ?thesis by simp
qed

lemma epoch_value: "TimeClip (MakeDay 1899 11 30 * msPerDay) = Some (- 2209161600000)"
  by (simp add: calendar_eval TimeClip_def)

lemma numeric_two: "dateObj P (Num 2) = Some (- 2208988800000)"
  by (simp add: dateObj_def calendar_eval TimeClip_def)

lemma numeric_date_east_of_utc:
  assumes "0 \<le> pf_tza P" "pf_tza P < msPerDay"
  shows "isoDateOfCell P (Num 2) = asc ''1900-01-01''"
proof -
  have "isoDate (pf_tza P) (Some (- 2208988800000)) =
     padStart 4 48 (numToString (Some 1900)) @ asc ''-'' @ padStart 2 48 (numToString (Some 1))
     @ asc ''-'' @ padStart 2 48 (numToString (Some 1))"
    using assms by (intro isoDate_of_local [of 1 1 1900 "pf_tza P"]) (simp_all add: calendar_eval)
  then show ?thesis
    by (simp add: isoDateOfCell_def numeric_two padStart_def numToString_def natToString.simps
        asc_def)
qed

lemma numeric_date_west_of_utc:
  assumes "- msPerDay \<le> pf_tza P" "pf_tza P < 0"
  shows "isoDateOfCell P (Num 2) = asc ''1899-12-31''"
proof -
  have "isoDate (pf_tza P) (Some (- 2208988800000)) =
     padStart 4 48 (numToString (Some 1899)) @ asc ''-'' @ padStart 2 48 (numToString (Some 12))
     @ asc ''-'' @ padStart 2 48 (numToString (Some 31))"
    using assms
    by (intro isoDate_of_local [of 12 31 1899 "pf_tza P + msPerDay"]) (simp_all add: calendar_eval)
  then show ?thesis
    by (simp add: isoDateOfCell_def numeric_two padStart_def numToString_def natToString.simps
        asc_def)
qed

text \<open>
  Claim C5. In a zone five hours behind UTC the numeric date cell 2 is normalised to
  \<open>1899-12-31\<close>: the day count is added to an epoch taken in UTC and the fields are read
  in local time.
\<close>

theorem numeric_date_behind_utc:
  "isoDateOfCell westPlatform (Num 2) = asc ''1899-12-31''"
proof -
  have "isoDate (- 18000000) (Some (- 2208988800000)) =
     padStart 4 48 (numToString (Some 1899)) @ asc ''-'' @ padStart 2 48 (numToString (Some 12))
     @ asc ''-'' @ padStart 2 48 (numToString (Some 31))"
    by (rule isoDate_of_local [of 12 31 1899 68400000]) (simp_all add: calendar_eval)
  then show ?thesis
    by (simp add: isoDateOfCell_def numeric_two westPlatform_def utcPlatform_def padStart_def
        numToString_def natToString.simps asc_def)
qed

lemma canonical_split:
  "splitOn (\<lambda>c. c = 46 \<or> c = 47) (asc ''2024-09-01'') = [asc ''2024-09-01'']"
  by (simp add: asc_def)

lemma canonical_parse: "isoDateOnly (asc ''2024-09-01'') = Some 1725148800000"
  by (simp add: isoDateOnly_def asc_def isDigit_def digitsValue_def calendar_eval)

lemma canonical_dateObj: "dateObj P (Str (asc ''2024-09-01'')) = Some 1725148800000"
  by (simp add: other_parts canonical_split dateParse_def canonical_parse TimeClip_def)

lemma canonical_date_east_of_utc:
  assumes "0 \<le> pf_tza P" "pf_tza P < msPerDay"
  shows "isoDateOfCell P (Str (asc ''2024-09-01'')) = asc ''2024-09-01''"
proof -
  have "isoDate (pf_tza P) (Some 1725148800000) =
     padStart 4 48 (numToString (Some 2024)) @ asc ''-'' @ padStart 2 48 (numToString (Some 9))
     @ asc ''-'' @ padStart 2 48 (numToString (Some 1))"
    using assms by (intro isoDate_of_local [of 9 1 2024 "pf_tza P"]) (simp_all add: calendar_eval)
  moreover have "isoDateOfCell P (Str (asc ''2024-09-01''))
      = isoDate (pf_tza P) (Some 1725148800000)"
    by (simp add: isoDateOfCell_def canonical_dateObj)
  ultimately show ?thesis
    by (simp add: padStart_def numToString_def natToString.simps asc_def)
qed

lemma canonical_date_west_of_utc:
  assumes "- msPerDay \<le> pf_tza P" "pf_tza P < 0"
  shows "isoDateOfCell P (Str (asc ''2024-09-01'')) = asc ''2024-08-31''"
proof -
  have "isoDate (pf_tza P) (Some 1725148800000) =
     padStart 4 48 (numToString (Some 2024)) @ asc ''-'' @ padStart 2 48 (numToString (Some 8))
     @ asc ''-'' @ padStart 2 48 (numToString (Some 31))"
    using assms
    by (intro isoDate_of_local [of 8 31 2024 "pf_tza P + msPerDay"]) (simp_all add: calendar_eval)
  moreover have "isoDateOfCell P (Str (asc ''2024-09-01''))
      = isoDate (pf_tza P) (Some 1725148800000)"
    by (simp add: isoDateOfCell_def canonical_dateObj)
  ultimately show ?thesis
    by (simp add: padStart_def numToString_def natToString.simps asc_def)
qed

text \<open>
  Claim C4. In a zone five hours behind UTC the canonical date cell \<open>2024-09-01\<close> is
  normalised to \<open>2024-08-31\<close>: \<open>Date.parse\<close> reads the date-only form as midnight UTC and
  the fields are read in local time.
\<close>

theorem canonical_date_behind_utc:
  "isoDateOfCell westPlatform (Str (asc ''2024-09-01'')) = asc ''2024-08-31''"
proof -
  have "isoDate (- 18000000) (Some 1725148800000) =
     padStart 4 48 (numToString (Some 2024)) @ asc ''-'' @ padStart 2 48 (numToString (Some 8))
     @ asc ''-'' @ padStart 2 48 (numToString (Some 31))"
    by (rule isoDate_of_local [of 8 31 2024 68400000]) (simp_all add: calendar_eval)
  moreover have "isoDateOfCell westPlatform (Str (asc ''2024-09-01''))
      = isoDate (- 18000000) (Some 1725148800000)"
    by (simp add: isoDateOfCell_def canonical_dateObj westPlatform_def utcPlatform_def)
  ultimately show ?thesis
    by (simp add: padStart_def numToString_def natToString.simps asc_def)
qed

section \<open>Ingestion\<close>

text \<open>The entry of a row that passes the date test.\<close>

lemma eventsStep_truthy:
  "truthy (cellAt row (hm labelDate)) \<Longrightarrow>
   eventsStep P hm events row = events @ [rowEvent P hm row (the (cellAt row (hm labelDate)))]"
  by (auto simp: eventsStep_def truthy_def split: option.splits)

lemma eventsStep_falsy:
  "\<not> truthy (cellAt row (hm labelDate)) \<Longrightarrow> eventsStep P hm events row = events"
  by (auto simp: eventsStep_def truthy_def split: option.splits)

lemma events_loop:
  "\<forall>r\<in>set rs. truthy (cellAt r (hm labelDate)) \<Longrightarrow>
   foldl (eventsStep P hm) acc rs
     = acc @ map (\<lambda>r. rowEvent P hm r (the (cellAt r (hm labelDate)))) rs"
  by (induction rs arbitrary: acc) (simp_all add: eventsStep_truthy)

lemma truthy_nonempty_row: "truthy (cellAt r idx) \<Longrightarrow> length r > 0"
  by (auto simp: truthy_def cellAt_def split: option.splits if_splits)

lemma parseRows_map_filter:
  assumes "headerIndex rows = Some h"
  shows "parseRows P rows =
     Some (map (\<lambda>r. rowEvent P (headerMap (rows ! h)) r (the (cellAt r (headerMap (rows ! h) labelDate))))
       (filter (\<lambda>r. truthy (cellAt r (headerMap (rows ! h) labelDate))) (drop (h + 1) rows)))"
proof -
  let ?hm = "headerMap (rows ! h)"
  have f: "filter (\<lambda>r. length r > 0 \<and> truthy (cellAt r (?hm labelDate))) (drop (h + 1) rows)
      = filter (\<lambda>r. truthy (cellAt r (?hm labelDate))) (drop (h + 1) rows)"
    by (rule filter_cong) (auto dest: truthy_nonempty_row)
  have "foldl (eventsStep P ?hm) []
          (filter (\<lambda>r. truthy (cellAt r (?hm labelDate))) (drop (h + 1) rows))
      = [] @ map (\<lambda>r. rowEvent P ?hm r (the (cellAt r (?hm labelDate))))
          (filter (\<lambda>r. truthy (cellAt r (?hm labelDate))) (drop (h + 1) rows))"
    by (rule events_loop) simp
  with assms f show ?thesis by (simp add: parseRows_def Let_def)
qed

text \<open>
  Claim C7, as the code has it. When the sheet has a header row, the entries are those of
  the rows after it whose cell in the date column is true for JavaScript (a string that
  is not empty, a number other than 0, the boolean true, or a date), one entry for each
  such row, in the order of the rows.
\<close>

theorem ingestion_one_entry_per_dated_row:
  "headerIndex rows = Some h \<Longrightarrow>
   parseRows P rows =
     Some (map (\<lambda>r. rowEvent P (headerMap (rows ! h)) r (the (cellAt r (headerMap (rows ! h) labelDate))))
       (filter (\<lambda>r. truthy (cellAt r (headerMap (rows ! h) labelDate))) (drop (h + 1) rows)))"
  by (rule parseRows_map_filter)

lemma zeroDateSheet_header: "headerIndex zeroDateSheet = Some 0"
  by (simp add: headerIndex_def zeroDateSheet_def)

lemma zeroDateSheet_map:
  "headerMap (zeroDateSheet ! 0) labelDate = Some 0"
  "headerMap (zeroDateSheet ! 0) labelStart = Some 1"
  by (simp_all add: zeroDateSheet_def headerMap_def headerStep_def trim_def isWhiteSpace_def
      labelDate_def labelStart_def enumerate_eq_zip)

lemma zeroDateSheet_starts:
  "map_option (map ev_start) (parseRows utcPlatform zeroDateSheet)
     = Some [asc ''09:00'', asc ''14:15'']"
proof -
  have "map_option (map ev_start) (parseRows utcPlatform zeroDateSheet)
     = Some (map (\<lambda>r. fieldText utcPlatform r (Some 1))
        (filter (\<lambda>r. truthy (cellAt r (Some 0))) (drop 1 zeroDateSheet)))"
    by (simp add: parseRows_map_filter [OF zeroDateSheet_header] zeroDateSheet_map rowEvent_def
        comp_def)
  also have "\<dots> = Some [asc ''09:00'', asc ''14:15'']"
    by (simp add: zeroDateSheet_def truthy_def cellAt_def fieldText_def cellToString_def
        trim_def isWhiteSpace_def asc_def)
  finally show ?thesis .
qed

theorem ingestion_one_entry_per_dated_row_witness:
  "headerIndex zeroDateSheet = Some 0
   \<and> map_option length (parseRows utcPlatform zeroDateSheet) = Some 2"
proof -
  have "map_option length (parseRows utcPlatform zeroDateSheet)
     = Some (length (filter (\<lambda>r. truthy (cellAt r (Some 0))) (drop 1 zeroDateSheet)))"
    using ingestion_one_entry_per_dated_row [OF zeroDateSheet_header, of utcPlatform]
    by (simp add: zeroDateSheet_map)
  also have "\<dots> = Some 2"
    by (simp add: zeroDateSheet_def truthy_def cellAt_def asc_def)
  finally show ?thesis using zeroDateSheet_header by simp
qed

text \<open>
  In \<open>zeroDateSheet\<close> the row that starts at 10:45 has the number 0 in the date column,
  which is not an empty cell, and no entry comes from it.
\<close>

theorem zero_date_row_skipped_counterexample:
  "headerIndex zeroDateSheet = Some 0
   \<and> cellAt (zeroDateSheet ! 2) (headerMap (zeroDateSheet ! 0) labelDate) = Some (Num 0)
   \<and> fieldText utcPlatform (zeroDateSheet ! 2) (headerMap (zeroDateSheet ! 0) labelStart)
       = asc ''10:45''
   \<and> map_option (map ev_start) (parseRows utcPlatform zeroDateSheet)
       = Some [asc ''09:00'', asc ''14:15'']"
proof -
  have "cellAt (zeroDateSheet ! 2) (Some 0) = Some (Num 0)"
    by (simp add: zeroDateSheet_def cellAt_def)
  moreover have "fieldText utcPlatform (zeroDateSheet ! 2) (Some 1) = asc ''10:45''"
    by (simp add: zeroDateSheet_def fieldText_def cellAt_def truthy_def cellToString_def
        trim_def isWhiteSpace_def asc_def)
  ultimately show ?thesis
    using zeroDateSheet_header zeroDateSheet_starts by (simp add: zeroDateSheet_map)
qed

section \<open>Failure of the upload\<close>






lemma full_store_leaves_slot:
  "parseRows P rows = Some events \<Longrightarrow> \<not> pf_fits P (pf_stringify P events) \<Longrightarrow>
   parseScheduleFile P (Inr rows) pg = (alert parseError pg, Some QuotaExceededError)"
  by (simp add: parseScheduleFile_def)


end
